theory Spec2Isabelle
  imports Main
begin

section \<open>JavaScript values used by the store\<close>

text \<open>
  The in-memory database of the service (class \<^verbatim>\<open>Database\<close>, the module that the
  routes import as \<^verbatim>\<open>db\<close>) keeps plain objects in a \<^verbatim>\<open>Map\<close> keyed by numbers. The
  routes hand it the request body as payload and the path parameter, a string, as id.
  The embedding fixes the following representation.

  \<^item> A string that is parsed (\<^verbatim>\<open>request.params.id\<close>, handed to \<^verbatim>\<open>parseInt\<close>) is the
    list of its UTF-16 code units.
  \<^item> A number is \<open>NaN\<close> or an integer. JavaScript numbers are doubles; integers of
    magnitude up to \<open>2^53\<close> are represented exactly and \<^verbatim>\<open>++\<close> on them is \<open>+ 1\<close>. The
    embedding takes them as mathematical integers: it describes the store as long as the
    counter, which starts at 1 and moves by one per \<^verbatim>\<open>create\<close>, stays below \<open>2^53\<close>.
  \<^item> A property value is \<open>undefined\<close>, an integer number, the string that
    \<^verbatim>\<open>new Date(t).toISOString()\<close> prints for the time value \<open>t\<close> (milliseconds since the
    epoch), or any other value (string, boolean, null, nested object, ...) that the store
    copies without looking at it.
  \<^item> An object is a finite map from property names to values. Property names are only
    compared for equality; the order of the properties of one object is not modelled.
\<close>

type_synonym jsstring = "nat list"

datatype jsnum = NaN | Finite int

datatype 'a jsval = Undefined | Num int | IsoTime int | Opaque 'a

type_synonym 'a obj = "string \<rightharpoonup> 'a jsval"

text \<open>Reading a property, \<^verbatim>\<open>item.id\<close>: a missing property reads as \<open>undefined\<close>.\<close>

definition getProp :: "'a obj \<Rightarrow> string \<Rightarrow> 'a jsval" where
  "getProp ob k = (case ob k of None \<Rightarrow> Undefined | Some v \<Rightarrow> v)"

section \<open>\<^verbatim>\<open>parseInt\<close> with the radix left out\<close>

text \<open>
  ECMAScript \<^verbatim>\<open>parseInt(string)\<close>: leading white space is skipped, one sign is read, a
  prefix \<^verbatim>\<open>0x\<close> or \<^verbatim>\<open>0X\<close> switches to radix 16, and the longest run of digits of
  the radix is the number. Everything after that run is ignored; with no digit at all the
  result is \<open>NaN\<close>.
\<close>

definition isStrWhiteSpaceChar :: "nat \<Rightarrow> bool" where
  "isStrWhiteSpaceChar c \<longleftrightarrow>
     c = 0x09 \<or> c = 0x0A \<or> c = 0x0B \<or> c = 0x0C \<or> c = 0x0D \<or> c = 0x20 \<or> c = 0xA0 \<or>
     c = 0x1680 \<or> (0x2000 \<le> c \<and> c \<le> 0x200A) \<or> c = 0x2028 \<or> c = 0x2029 \<or>
     c = 0x202F \<or> c = 0x205F \<or> c = 0x3000 \<or> c = 0xFEFF"

text \<open>The value of a code unit as a digit: \<^verbatim>\<open>0-9\<close>, then \<^verbatim>\<open>a-z\<close> and \<^verbatim>\<open>A-Z\<close> from 10.\<close>

definition digitValue :: "nat \<Rightarrow> nat option" where
  "digitValue c =
     (if 48 \<le> c \<and> c \<le> 57 then Some (c - 48)
      else if 97 \<le> c \<and> c \<le> 122 then Some (c - 87)
      else if 65 \<le> c \<and> c \<le> 90 then Some (c - 55)
      else None)"

definition isRadixDigit :: "nat \<Rightarrow> nat \<Rightarrow> bool" where
  "isRadixDigit R c = (case digitValue c of None \<Rightarrow> False | Some d \<Rightarrow> d < R)"

text \<open>The integer that a run of digits denotes in radix \<open>R\<close>, most significant first.\<close>

fun mathInt :: "nat \<Rightarrow> nat \<Rightarrow> jsstring \<Rightarrow> nat" where
  "mathInt R acc [] = acc"
| "mathInt R acc (c # cs) =
     mathInt R (acc * R + (case digitValue c of None \<Rightarrow> 0 | Some d \<Rightarrow> d)) cs"

definition signOf :: "jsstring \<Rightarrow> int" where
  "signOf S = (if S \<noteq> [] \<and> hd S = 0x2D then - 1 else 1)"

definition afterSign :: "jsstring \<Rightarrow> jsstring" where
  "afterSign S = (if S \<noteq> [] \<and> (hd S = 0x2B \<or> hd S = 0x2D) then tl S else S)"

definition hexPrefix :: "jsstring \<Rightarrow> bool" where
  "hexPrefix S \<longleftrightarrow> 2 \<le> length S \<and> (take 2 S = [0x30, 0x78] \<or> take 2 S = [0x30, 0x58])"

definition parseInt :: "jsstring \<Rightarrow> jsnum" where
  "parseInt inputString =
     (let S = dropWhile isStrWhiteSpaceChar inputString;
          sign = signOf S;
          S = afterSign S;
          stripPrefix = hexPrefix S;
          R = (if stripPrefix then 16 else 10);
          S = (if stripPrefix then drop 2 S else S);
          Z = takeWhile (isRadixDigit R) S
      in if Z = [] then NaN else Finite (sign * int (mathInt R 0 Z)))"

text \<open>
  String literals of the examples: the code units of an ASCII string, and the decimal
  numeral that \<^verbatim>\<open>String(n)\<close> prints for a natural number.
\<close>

definition js :: "string \<Rightarrow> jsstring" where
  "js s = map of_char s"

fun decimal :: "nat \<Rightarrow> jsstring" where
  "decimal n = (if n < 10 then [48 + n] else decimal (n div 10) @ [48 + n mod 10])"

declare decimal.simps [simp del]

section \<open>The \<^verbatim>\<open>Map\<close> of the store\<close>

text \<open>
  A JavaScript \<^verbatim>\<open>Map\<close> iterates in insertion order, so it is the list of its entries,
  oldest first. \<^verbatim>\<open>set\<close> on a key that is present replaces the value where it stands and
  appends a new entry otherwise; \<^verbatim>\<open>delete\<close> reports whether the key was present and
  takes its entry out (a key has at most one entry, so this is every entry with the key).
  Keys are compared by SameValueZero, under which \<open>NaN\<close> equals itself: equality of
  \<^typ>\<open>jsnum\<close>.
\<close>

type_synonym ('k, 'v) jsmap = "('k \<times> 'v) list"

fun Map_set :: "('k, 'v) jsmap \<Rightarrow> 'k \<Rightarrow> 'v \<Rightarrow> ('k, 'v) jsmap" where
  "Map_set [] k v = [(k, v)]"
| "Map_set ((k', v') # es) k v =
     (if k' = k then (k, v) # es else (k', v') # Map_set es k v)"

definition Map_get :: "('k, 'v) jsmap \<Rightarrow> 'k \<Rightarrow> 'v option" where
  "Map_get es k = map_of es k"

definition Map_has :: "('k, 'v) jsmap \<Rightarrow> 'k \<Rightarrow> bool" where
  "Map_has es k \<longleftrightarrow> k \<in> set (map fst es)"

definition Map_delete :: "('k, 'v) jsmap \<Rightarrow> 'k \<Rightarrow> bool \<times> ('k, 'v) jsmap" where
  "Map_delete es k = (Map_has es k, filter (\<lambda>e. fst e \<noteq> k) es)"

definition Map_values :: "('k, 'v) jsmap \<Rightarrow> 'v list" where
  "Map_values es = map snd es"

section \<open>The store: class \<^verbatim>\<open>Database\<close>\<close>

record 'a Database =
  items :: "(jsnum, 'a obj) jsmap"
  currentId :: int

text \<open>The constructor: an empty map and the counter at 1.\<close>

definition init :: "'a Database" where
  "init = \<lparr>items = [], currentId = 1\<rparr>"

text \<open>
  \<^verbatim>\<open>create(data)\<close>. The object literal lists \<^verbatim>\<open>id\<close> first, then spreads \<^verbatim>\<open>data\<close>, then
  sets the two time stamps, each from its own \<^verbatim>\<open>new Date()\<close>: \<open>now1\<close> and \<open>now2\<close> are
  the two readings of the clock, in the order the code takes them. The entity is stored
  under the counter's value.
\<close>

definition create :: "'a Database \<Rightarrow> 'a obj \<Rightarrow> int \<Rightarrow> int \<Rightarrow> 'a obj \<times> 'a Database" where
  "create db data now1 now2 =
     (let id' = currentId db;
          db = db\<lparr>currentId := id' + 1\<rparr>;
          item = ([''id'' \<mapsto> Num id'] ++ data)
                   (''createdAt'' \<mapsto> IsoTime now1, ''updatedAt'' \<mapsto> IsoTime now2)
      in (item, db\<lparr>items := Map_set (items db) (Finite id') item\<rparr>))"

definition findAll :: "'a Database \<Rightarrow> 'a obj list" where
  "findAll db = Map_values (items db)"

text \<open>\<^verbatim>\<open>findById(id)\<close>: \<open>None\<close> is the \<^verbatim>\<open>undefined\<close> that \<^verbatim>\<open>Map.get\<close> returns for a missing key.\<close>

definition findById :: "'a Database \<Rightarrow> jsstring \<Rightarrow> 'a obj option" where
  "findById db i = Map_get (items db) (parseInt i)"

text \<open>
  \<^verbatim>\<open>update(id, data)\<close>: \<open>None\<close> is the \<^verbatim>\<open>null\<close> returned when nothing is stored under
  the key. Otherwise the stored entity is spread, then \<^verbatim>\<open>data\<close>, then \<^verbatim>\<open>id\<close> and
  \<^verbatim>\<open>createdAt\<close> are set from the stored entity and \<^verbatim>\<open>updatedAt\<close> from the clock.
\<close>

definition update :: "'a Database \<Rightarrow> jsstring \<Rightarrow> 'a obj \<Rightarrow> int \<Rightarrow> 'a obj option \<times> 'a Database" where
  "update db i data now =
     (case Map_get (items db) (parseInt i) of
        None \<Rightarrow> (None, db)
      | Some item \<Rightarrow>
          (let updated = (item ++ data)
                 (''id'' \<mapsto> getProp item ''id'', ''createdAt'' \<mapsto> getProp item ''createdAt'',
                  ''updatedAt'' \<mapsto> IsoTime now)
           in (Some updated, db\<lparr>items := Map_set (items db) (parseInt i) updated\<rparr>)))"

definition delete :: "'a Database \<Rightarrow> jsstring \<Rightarrow> bool \<times> 'a Database" where
  "delete db i =
     (let (removed, es) = Map_delete (items db) (parseInt i)
      in (removed, db\<lparr>items := es\<rparr>))"

section \<open>Sequences of calls\<close>

text \<open>
  A call of one of the five methods, with the readings of the clock that the call takes,
  and what it returns.
\<close>

datatype 'a call =
    Create "'a obj" int int
  | FindAll
  | FindById jsstring
  | Update jsstring "'a obj" int
  | Delete jsstring

datatype 'a reply =
    Entity "'a obj"
  | Entities "'a obj list"
  | Found "'a obj option"
  | Removed bool

fun exec :: "'a Database \<Rightarrow> 'a call \<Rightarrow> 'a reply \<times> 'a Database" where
  "exec db (Create data now1 now2) = (let (item, db') = create db data now1 now2 in (Entity item, db'))"
| "exec db FindAll = (Entities (findAll db), db)"
| "exec db (FindById i) = (Found (findById db i), db)"
| "exec db (Update i data now) = (let (r, db') = update db i data now in (Found r, db'))"
| "exec db (Delete i) = (let (b, db') = delete db i in (Removed b, db'))"

fun run :: "'a Database \<Rightarrow> 'a call list \<Rightarrow> 'a reply list \<times> 'a Database" where
  "run db [] = ([], db)"
| "run db (c # cs) =
     (let (r, db') = exec db c; (rs, db'') = run db' cs in (r # rs, db''))"

definition replies :: "'a call list \<Rightarrow> 'a reply list" where
  "replies cs = fst (run init cs)"

definition after :: "'a call list \<Rightarrow> 'a Database" where
  "after cs = snd (run init cs)"

text \<open>
  The clock readings that a sequence of calls carries, in the order they are taken. (An
  \<^verbatim>\<open>update\<close> that finds nothing returns before it reads the clock and ignores its \<open>now\<close>.)
\<close>

fun readings :: "'a call list \<Rightarrow> int list" where
  "readings [] = []"
| "readings (Create data now1 now2 # cs) = now1 # now2 # readings cs"
| "readings (Update i data now # cs) = now # readings cs"
| "readings (c # cs) = readings cs"

text \<open>The number of \<^verbatim>\<open>create\<close> calls, and of the \<^verbatim>\<open>delete\<close> calls that returned \<^verbatim>\<open>true\<close>.\<close>

fun isCreate :: "'a call \<Rightarrow> bool" where
  "isCreate (Create data now1 now2) = True"
| "isCreate c = False"

definition creates :: "'a call list \<Rightarrow> nat" where
  "creates cs = length (filter isCreate cs)"

definition removals :: "'a reply list \<Rightarrow> nat" where
  "removals rs = length (filter (\<lambda>r. r = Removed True) rs)"

text \<open>
  The comparison \<^verbatim>\<open><\<close> of two numbers (false when either is \<open>NaN\<close>), and the place
  of a key in the iteration order of a map.
\<close>

fun lessNum :: "jsnum \<Rightarrow> jsnum \<Rightarrow> bool" where
  "lessNum (Finite a) (Finite b) = (a < b)"
| "lessNum x y = False"

definition position :: "('k, 'v) jsmap \<Rightarrow> 'k \<Rightarrow> nat" where
  "position es k = length (takeWhile (\<lambda>e. fst e \<noteq> k) es)"

text \<open>Whether a string begins with a decimal digit.\<close>

definition startsWithDigit :: "jsstring \<Rightarrow> bool" where
  "startsWithDigit S \<longleftrightarrow> (case S of [] \<Rightarrow> False | c # cs \<Rightarrow> 48 \<le> c \<and> c \<le> 57)"

text \<open>
  Whether a string begins with a hexadecimal digit, and whether it begins with white space
  or a sign. An input read as \<open>ws @ sg @ body\<close>: white space, then at most one sign, then
  the text where the digits are looked for (which, when there is no sign, begins with
  neither white space nor a sign).
\<close>

definition startsWithHexDigit :: "jsstring \<Rightarrow> bool" where
  "startsWithHexDigit S \<longleftrightarrow> (case S of [] \<Rightarrow> False | c # cs \<Rightarrow> isRadixDigit 16 c)"

definition startsWithSpaceOrSign :: "jsstring \<Rightarrow> bool" where
  "startsWithSpaceOrSign S \<longleftrightarrow>
     (case S of [] \<Rightarrow> False | c # cs \<Rightarrow> isStrWhiteSpaceChar c \<or> c = 0x2B \<or> c = 0x2D)"

definition signedText :: "jsstring \<Rightarrow> jsstring \<Rightarrow> jsstring \<Rightarrow> bool" where
  "signedText ws sg body \<longleftrightarrow>
     (\<forall>c \<in> set ws. isStrWhiteSpaceChar c) \<and> (sg = [] \<or> sg = [0x2B] \<or> sg = [0x2D])
     \<and> (sg = [] \<longrightarrow> \<not> startsWithSpaceOrSign body)"

text \<open>
  A property of what a call returned: \<open>None\<close> when the call returned no entity or the
  entity has no such property.
\<close>

definition propOf :: "'a obj option \<Rightarrow> string \<Rightarrow> 'a jsval option" where
  "propOf r k = (case r of None \<Rightarrow> None | Some ob \<Rightarrow> ob k)"

text \<open>
  Two invariants of the store. The keys of the map are positive integers below the
  counter, in increasing order; and every stored entity has an \<^verbatim>\<open>id\<close> and a
  \<^verbatim>\<open>createdAt\<close> property and carries in \<^verbatim>\<open>updatedAt\<close> one of the clock readings \<open>ts\<close>.
\<close>

definition keysInOrder :: "'a Database \<Rightarrow> bool" where
  "keysInOrder db \<longleftrightarrow> 0 < currentId db \<and> sorted_wrt lessNum (map fst (items db))
     \<and> (\<forall>k \<in> set (map fst (items db)). lessNum (Finite 0) k \<and> lessNum k (Finite (currentId db)))"

definition stamped :: "int list \<Rightarrow> 'a Database \<Rightarrow> bool" where
  "stamped ts db \<longleftrightarrow>
     (\<forall>e \<in> set (findAll db). e ''id'' \<noteq> None \<and> e ''createdAt'' \<noteq> None
        \<and> (\<exists>t \<in> set ts. e ''updatedAt'' = Some (IsoTime t)))"

section \<open>The map operations\<close>

lemma Map_get_set:
  "Map_get (Map_set es k v) k' = (if k' = k then Some v else Map_get es k')"
  by (induction es) (auto simp: Map_get_def)

lemma Map_get_None_iff: "Map_get es k = None \<longleftrightarrow> \<not> Map_has es k"
  by (simp add: Map_get_def Map_has_def map_of_eq_None_iff)

lemma Map_get_filter:
  "Map_get (filter (\<lambda>e. fst e \<noteq> k) es) k' = (if k' = k then None else Map_get es k')"
  by (induction es) (auto simp: Map_get_def)

lemma Map_has_filter:
  "Map_has (filter (\<lambda>e. fst e \<noteq> k) es) k' \<longleftrightarrow> k' \<noteq> k \<and> Map_has es k'"
  by (induction es) (auto simp: Map_has_def)

lemma filter_absent: "\<not> Map_has es k \<Longrightarrow> filter (\<lambda>e. fst e \<noteq> k) es = es"
  by (induction es) (auto simp: Map_has_def)

lemma keys_Map_set_present: "Map_has es k \<Longrightarrow> map fst (Map_set es k v) = map fst es"
  by (induction es) (force simp: Map_has_def)+

lemma Map_set_absent: "\<not> Map_has es k \<Longrightarrow> Map_set es k v = es @ [(k, v)]"
  by (induction es) (auto simp: Map_has_def)

lemma delete_eq:
  "delete db i = (Map_has (items db) (parseInt i),
                  db\<lparr>items := filter (\<lambda>e. fst e \<noteq> parseInt i) (items db)\<rparr>)"
  by (simp add: delete_def Map_delete_def)

lemma Map_has_Nil: "\<not> Map_has [] k"
  by (simp add: Map_has_def)

lemma Map_has_Cons: "Map_has (e # es) k \<longleftrightarrow> fst e = k \<or> Map_has es k"
  by (auto simp: Map_has_def)

lemma Map_get_Some_has: "Map_get es k = Some v \<Longrightarrow> Map_has es k"
  using Map_get_None_iff [of es k] by simp

lemma Map_set_position:
  "Map_has es k \<Longrightarrow> Map_set es k v = es[position es k := (k, v)]"
  by (induction es) (auto simp: Map_has_Nil Map_has_Cons position_def)

lemma position_less: "Map_has es k \<Longrightarrow> position es k < length es"
  by (induction es) (auto simp: Map_has_Nil Map_has_Cons position_def)

lemma Map_get_position:
  "Map_get es k = Some v \<Longrightarrow> map snd es ! position es k = v"
  by (induction es) (auto simp: Map_get_def position_def split: if_splits)

lemma keys_filter:
  "map fst (filter (\<lambda>e. fst e \<noteq> k) es) = filter (\<lambda>x. x \<noteq> k) (map fst es)"
  by (induction es) auto

section \<open>Runs, one call at a time\<close>

lemma run_append:
  "run db (cs @ ds) =
     (fst (run db cs) @ fst (run (snd (run db cs)) ds), snd (run (snd (run db cs)) ds))"
  by (induction cs arbitrary: db) (auto simp: split_def Let_def)

lemma after_Nil: "after [] = init"
  by (simp add: after_def)

lemma after_snoc: "after (cs @ [c]) = snd (exec (after cs) c)"
  by (simp add: after_def run_append split_def Let_def)

lemma replies_Nil: "replies [] = []"
  by (simp add: replies_def)

lemma replies_snoc: "replies (cs @ [c]) = replies cs @ [fst (exec (after cs) c)]"
  by (simp add: after_def replies_def run_append split_def Let_def)

section \<open>The keys stay in order\<close>

lemma lessNum_irrefl: "\<not> lessNum k k"
  by (cases k) auto

lemma keysInOrder_fresh: "keysInOrder db \<Longrightarrow> \<not> Map_has (items db) (Finite (currentId db))"
  using lessNum_irrefl by (auto simp: keysInOrder_def Map_has_def)

lemma keysInOrder_init: "keysInOrder init"
  by (simp add: keysInOrder_def init_def)

lemma create_eq:
  "keysInOrder db \<Longrightarrow> snd (create db data now1 now2) =
     db\<lparr>currentId := currentId db + 1,
        items := items db @ [(Finite (currentId db), fst (create db data now1 now2))]\<rparr>"
  by (simp add: create_def Let_def Map_set_absent keysInOrder_fresh)

lemma keysInOrder_create: "keysInOrder db \<Longrightarrow> keysInOrder (snd (create db data now1 now2))"
proof -
  assume a: "keysInOrder db"
  have "lessNum k (Finite (currentId db + 1))" if "lessNum k (Finite (currentId db))" for k
    using that by (cases k) auto
  with a show ?thesis
    by (simp add: create_eq keysInOrder_def sorted_wrt_append)
qed

lemma items_update_keys: "map fst (items (snd (update db i data now))) = map fst (items db)"
  by (simp add: update_def Let_def keys_Map_set_present Map_get_Some_has split: option.splits)

lemma currentId_update: "currentId (snd (update db i data now)) = currentId db"
  by (simp add: update_def Let_def split: option.splits)

lemma keysInOrder_update: "keysInOrder db \<Longrightarrow> keysInOrder (snd (update db i data now))"
  by (simp add: keysInOrder_def items_update_keys currentId_update)

lemma keysInOrder_delete: "keysInOrder db \<Longrightarrow> keysInOrder (snd (delete db i))"
  by (simp add: keysInOrder_def delete_eq keys_filter sorted_wrt_filter) blast

lemma keysInOrder_exec: "keysInOrder db \<Longrightarrow> keysInOrder (snd (exec db c))"
  by (cases c)
    (simp_all add: split_def Let_def keysInOrder_create keysInOrder_update keysInOrder_delete)

lemma keysInOrder_after: "keysInOrder (after cs)"
  by (induction cs rule: rev_induct)
    (simp_all add: after_Nil after_snoc keysInOrder_init keysInOrder_exec)

section \<open>The time stamps of stored entities\<close>

lemma values_Map_set: "set (map snd (Map_set es k v)) \<subseteq> insert v (set (map snd es))"
proof (induction es)
  case Nil
  show ?case by simp
next
  case (Cons e es)
  then show ?case by (cases e) (auto split: if_splits)
qed

lemma readings_append: "readings (cs @ ds) = readings cs @ readings ds"
  by (induction cs rule: readings.induct) simp_all

lemma stamped_mono: "stamped ts db \<Longrightarrow> set ts \<subseteq> set ts' \<Longrightarrow> stamped ts' db"
  unfolding stamped_def by blast

lemma stamped_init: "stamped [] init"
  by (simp add: stamped_def findAll_def Map_values_def init_def)

lemma stamped_create:
  assumes "stamped ts db"
  shows "stamped (ts @ [now1, now2]) (snd (create db data now1 now2))"
proof -
  let ?item = "fst (create db data now1 now2)"
  have item: "?item ''id'' \<noteq> None" "?item ''createdAt'' \<noteq> None"
    "?item ''updatedAt'' = Some (IsoTime now2)"
    by (simp_all add: create_def Let_def map_add_def split: option.splits)
  have sub: "set (findAll (snd (create db data now1 now2))) \<subseteq> insert ?item (set (findAll db))"
    using values_Map_set [of "items db" "Finite (currentId db)" ?item]
    by (simp add: findAll_def Map_values_def create_def Let_def)
  show ?thesis
    unfolding stamped_def
  proof
    fix e assume "e \<in> set (findAll (snd (create db data now1 now2)))"
    with sub have "e = ?item \<or> e \<in> set (findAll db)" by blast
    then show "e ''id'' \<noteq> None \<and> e ''createdAt'' \<noteq> None
        \<and> (\<exists>t \<in> set (ts @ [now1, now2]). e ''updatedAt'' = Some (IsoTime t))"
    proof
      assume "e = ?item" with item show ?thesis by simp
    next
      assume "e \<in> set (findAll db)"
      with assms show ?thesis unfolding stamped_def by fastforce
    qed
  qed
qed

lemma stamped_update:
  assumes "stamped ts db"
  shows "stamped (ts @ [now]) (snd (update db i data now))"
proof (cases "Map_get (items db) (parseInt i)")
  case None
  then have "snd (update db i data now) = db" by (simp add: update_def)
  with assms show ?thesis using stamped_mono [of ts db "ts @ [now]"] by auto
next
  case (Some item)
  let ?u = "(item ++ data)(''id'' \<mapsto> getProp item ''id'', ''createdAt'' \<mapsto> getProp item ''createdAt'',
                  ''updatedAt'' \<mapsto> IsoTime now)"
  have sub: "set (findAll (snd (update db i data now))) \<subseteq> insert ?u (set (findAll db))"
    using values_Map_set [of "items db" "parseInt i" ?u] Some
    by (simp add: findAll_def Map_values_def update_def Let_def)
  show ?thesis
    unfolding stamped_def
  proof
    fix e assume "e \<in> set (findAll (snd (update db i data now)))"
    with sub have "e = ?u \<or> e \<in> set (findAll db)" by blast
    then show "e ''id'' \<noteq> None \<and> e ''createdAt'' \<noteq> None
        \<and> (\<exists>t \<in> set (ts @ [now]). e ''updatedAt'' = Some (IsoTime t))"
    proof
      assume "e = ?u" then show ?thesis by simp
    next
      assume "e \<in> set (findAll db)"
      with assms show ?thesis unfolding stamped_def by fastforce
    qed
  qed
qed

lemma stamped_delete: "stamped ts db \<Longrightarrow> stamped ts (snd (delete db i))"
  by (auto simp: stamped_def delete_eq findAll_def Map_values_def)

lemma stamped_exec: "stamped ts db \<Longrightarrow> stamped (ts @ readings [c]) (snd (exec db c))"
  by (cases c) (simp_all add: split_def Let_def stamped_create stamped_update stamped_delete)

lemma stamped_after: "stamped (readings cs) (after cs)"
  by (induction cs rule: rev_induct)
    (simp_all add: after_Nil after_snoc stamped_init stamped_exec readings_append)

lemma findById_in_findAll: "findById db i = Some e \<Longrightarrow> e \<in> set (findAll db)"
  by (auto simp: findById_def findAll_def Map_get_def Map_values_def dest: map_of_SomeD intro: rev_image_eqI)

section \<open>What \<^verbatim>\<open>parseInt\<close> reads\<close>

lemma isRadixDigit_10: "isRadixDigit 10 c \<longleftrightarrow> 48 \<le> c \<and> c \<le> 57"
  by (auto simp: isRadixDigit_def digitValue_def)

lemma digit_not_space: "48 \<le> c \<Longrightarrow> c \<le> 57 \<Longrightarrow> \<not> isStrWhiteSpaceChar c"
  by (auto simp: isStrWhiteSpaceChar_def)

lemma decimal_digits: "c \<in> set (decimal n) \<Longrightarrow> 48 \<le> c \<and> c \<le> 57"
proof (induction n arbitrary: c rule: decimal.induct)
  case (1 n)
  show ?case
  proof (cases "n < 10")
    case True
    with "1.prems" show ?thesis by (simp add: decimal.simps [of n])
  next
    case False
    with "1.prems" have "c \<in> set (decimal (n div 10)) \<or> c = 48 + n mod 10"
      by (auto simp: decimal.simps [of n])
    then show ?thesis
    proof
      assume "c \<in> set (decimal (n div 10))"
      with False "1.IH" show ?thesis by blast
    next
      assume c: "c = 48 + n mod 10"
      have "n mod 10 < 10" by simp
      with c show ?thesis by linarith
    qed
  qed
qed

lemma decimal_head: "0 < n \<Longrightarrow> \<exists>c cs. decimal n = c # cs \<and> 49 \<le> c \<and> c \<le> 57"
proof (induction n rule: decimal.induct)
  case (1 n)
  show ?case
  proof (cases "n < 10")
    case True
    with "1.prems" show ?thesis by (simp add: decimal.simps [of n])
  next
    case False
    then have "0 < n div 10" by simp
    with False "1.IH" obtain c cs where "decimal (n div 10) = c # cs" "49 \<le> c" "c \<le> 57"
      by blast
    with False show ?thesis by (simp add: decimal.simps [of n])
  qed
qed

lemma mathInt_snoc:
  "mathInt R acc (cs @ [c]) = mathInt R acc cs * R + (case digitValue c of None \<Rightarrow> 0 | Some d \<Rightarrow> d)"
  by (induction cs arbitrary: acc) simp_all

lemma mathInt_decimal: "mathInt 10 0 (decimal n) = n"
proof (induction n rule: decimal.induct)
  case (1 n)
  show ?case
  proof (cases "n < 10")
    case True
    then show ?thesis by (simp add: decimal.simps [of n] digitValue_def)
  next
    case False
    have "n mod 10 < 10" by simp
    then have "digitValue (48 + n mod 10) = Some (n mod 10)"
      by (simp add: digitValue_def)
    with False "1.IH" show ?thesis
      by (simp add: decimal.simps [of n] mathInt_snoc)
  qed
qed

lemma takeWhile_not_digit:
  "\<not> startsWithDigit rest \<Longrightarrow> takeWhile (isRadixDigit 10) rest = []"
  by (cases rest) (auto simp: startsWithDigit_def isRadixDigit_10)

lemma parseInt_radix_10:
  "\<not> hexPrefix (afterSign (dropWhile isStrWhiteSpaceChar i)) \<Longrightarrow>
   parseInt i =
     (if takeWhile (isRadixDigit 10) (afterSign (dropWhile isStrWhiteSpaceChar i)) = [] then NaN
      else Finite (signOf (dropWhile isStrWhiteSpaceChar i)
        * int (mathInt 10 0 (takeWhile (isRadixDigit 10) (afterSign (dropWhile isStrWhiteSpaceChar i))))))"
  by (simp add: parseInt_def Let_def)

lemma parseInt_decimal:
  assumes n: "0 < n" and ws: "\<forall>c \<in> set ws. isStrWhiteSpaceChar c" and rest: "\<not> startsWithDigit rest"
  shows "parseInt (ws @ decimal n @ rest) = Finite (int n)"
proof -
  from n obtain c cs where d: "decimal n = c # cs" and c: "49 \<le> c" "c \<le> 57"
    using decimal_head by blast
  from c have nsp: "\<not> isStrWhiteSpaceChar c" by (simp add: digit_not_space)
  from ws have "dropWhile isStrWhiteSpaceChar (ws @ decimal n @ rest)
      = dropWhile isStrWhiteSpaceChar (decimal n @ rest)"
    by (simp add: dropWhile_append2)
  with d nsp have S: "dropWhile isStrWhiteSpaceChar (ws @ decimal n @ rest) = decimal n @ rest"
    by simp
  from c d have S1: "afterSign (decimal n @ rest) = decimal n @ rest"
    and sg: "signOf (decimal n @ rest) = 1"
    by (simp_all add: afterSign_def signOf_def)
  from c d have hp: "\<not> hexPrefix (decimal n @ rest)"
    by (simp add: hexPrefix_def)
  have digs: "\<forall>x \<in> set (decimal n). isRadixDigit 10 x"
    using decimal_digits [of _ n] by (simp add: isRadixDigit_10)
  have Z: "takeWhile (isRadixDigit 10) (decimal n @ rest) = decimal n"
    using takeWhile_not_digit [OF rest] digs by (simp add: takeWhile_append2)
  from d have ne: "decimal n \<noteq> []" by simp
  from hp have "parseInt (ws @ decimal n @ rest) = Finite (int (mathInt 10 0 (decimal n)))"
    by (simp add: parseInt_radix_10 S S1 sg Z ne)
  then show ?thesis by (simp add: mathInt_decimal)
qed

lemma parseInt_no_digit:
  assumes "\<not> startsWithDigit (afterSign (dropWhile isStrWhiteSpaceChar i))"
  shows "parseInt i = NaN"
proof -
  from assms have "\<not> hexPrefix (afterSign (dropWhile isStrWhiteSpaceChar i))"
    by (cases "afterSign (dropWhile isStrWhiteSpaceChar i)") (auto simp: startsWithDigit_def hexPrefix_def)
  then show ?thesis
    using takeWhile_not_digit [OF assms] by (simp add: parseInt_radix_10)
qed

lemma sign_not_space: "\<not> isStrWhiteSpaceChar 0x2B" "\<not> isStrWhiteSpaceChar 0x2D"
  by (simp_all add: isStrWhiteSpaceChar_def)

lemma isRadixDigit_16:
  "isRadixDigit 16 c \<longleftrightarrow> (48 \<le> c \<and> c \<le> 57) \<or> (97 \<le> c \<and> c \<le> 102) \<or> (65 \<le> c \<and> c \<le> 70)"
  by (auto simp: isRadixDigit_def digitValue_def)

lemma signedText_strip:
  assumes "signedText ws sg body"
  shows "dropWhile isStrWhiteSpaceChar (ws @ sg @ body) = sg @ body"
    and "signOf (sg @ body) = signOf sg"
    and "afterSign (sg @ body) = body"
proof -
  from assms have ws: "\<forall>c \<in> set ws. isStrWhiteSpaceChar c"
    and sg: "sg = [] \<or> sg = [0x2B] \<or> sg = [0x2D]"
    and b: "sg = [] \<longrightarrow> \<not> startsWithSpaceOrSign body"
    by (simp_all add: signedText_def)
  from ws have "dropWhile isStrWhiteSpaceChar (ws @ sg @ body)
      = dropWhile isStrWhiteSpaceChar (sg @ body)"
    by (simp add: dropWhile_append2)
  moreover have "dropWhile isStrWhiteSpaceChar (sg @ body) = sg @ body"
    using sg b by (cases body) (auto simp: startsWithSpaceOrSign_def sign_not_space)
  ultimately show "dropWhile isStrWhiteSpaceChar (ws @ sg @ body) = sg @ body" by simp
  show "signOf (sg @ body) = signOf sg"
    using sg b by (cases body) (auto simp: startsWithSpaceOrSign_def signOf_def)
  show "afterSign (sg @ body) = body"
    using sg b by (cases body) (auto simp: startsWithSpaceOrSign_def afterSign_def)
qed

lemma parseInt_signedText:
  assumes "signedText ws sg body"
  shows "parseInt (ws @ sg @ body) =
     (if hexPrefix body
      then (if takeWhile (isRadixDigit 16) (drop 2 body) = [] then NaN
            else Finite (signOf sg * int (mathInt 16 0 (takeWhile (isRadixDigit 16) (drop 2 body)))))
      else (if takeWhile (isRadixDigit 10) body = [] then NaN
            else Finite (signOf sg * int (mathInt 10 0 (takeWhile (isRadixDigit 10) body)))))"
  by (simp add: parseInt_def Let_def signedText_strip [OF assms])

lemma takeWhile_run:
  "\<forall>c \<in> set ds. P c \<Longrightarrow> (case rest of [] \<Rightarrow> True | c # cs \<Rightarrow> \<not> P c) \<Longrightarrow>
     takeWhile P (ds @ rest) = ds"
  by (cases rest) (simp_all add: takeWhile_append2)

lemma parseInt_decimal_run:
  assumes "signedText ws sg (ds @ rest)" and "ds \<noteq> []" and "\<forall>c \<in> set ds. isRadixDigit 10 c"
    and "\<not> startsWithDigit rest" and "\<not> hexPrefix (ds @ rest)"
  shows "parseInt (ws @ sg @ ds @ rest) = Finite (signOf sg * int (mathInt 10 0 ds))"
proof -
  from assms(4) have "case rest of [] \<Rightarrow> True | c # cs \<Rightarrow> \<not> isRadixDigit 10 c"
    by (cases rest) (simp_all add: startsWithDigit_def isRadixDigit_10)
  with assms(3) have "takeWhile (isRadixDigit 10) (ds @ rest) = ds" by (rule takeWhile_run)
  with assms(2,5) show ?thesis by (simp add: parseInt_signedText [OF assms(1)])
qed

lemma parseInt_hex_run:
  assumes "signedText ws sg ([0x30, x] @ hs @ rest)" and "x = 0x78 \<or> x = 0x58"
    and "hs \<noteq> []" and "\<forall>c \<in> set hs. isRadixDigit 16 c" and "\<not> startsWithHexDigit rest"
  shows "parseInt (ws @ sg @ [0x30, x] @ hs @ rest) = Finite (signOf sg * int (mathInt 16 0 hs))"
proof -
  from assms(5) have "case rest of [] \<Rightarrow> True | c # cs \<Rightarrow> \<not> isRadixDigit 16 c"
    by (cases rest) (simp_all add: startsWithHexDigit_def)
  with assms(4) have t: "takeWhile (isRadixDigit 16) (hs @ rest) = hs" by (rule takeWhile_run)
  from assms(2) have h: "hexPrefix ([0x30, x] @ hs @ rest)" by (auto simp: hexPrefix_def)
  have d: "drop 2 ([0x30, x] @ hs @ rest) = hs @ rest" by simp
  show ?thesis
    unfolding parseInt_signedText [OF assms(1)] using h t assms(3) by (simp only: d if_True if_False)
qed

lemma parseInt_hex_empty:
  assumes "signedText ws sg ([0x30, x] @ rest)" and "x = 0x78 \<or> x = 0x58"
    and "\<not> startsWithHexDigit rest"
  shows "parseInt (ws @ sg @ [0x30, x] @ rest) = NaN"
proof -
  from assms(3) have t: "takeWhile (isRadixDigit 16) rest = []"
    by (cases rest) (simp_all add: startsWithHexDigit_def)
  from assms(2) have h: "hexPrefix ([0x30, x] @ rest)" by (auto simp: hexPrefix_def)
  have d: "drop 2 ([0x30, x] @ rest) = rest" by simp
  show ?thesis
    unfolding parseInt_signedText [OF assms(1)] using h t by (simp only: d if_True) simp
qed

lemma parseInt_no_run:
  assumes "signedText ws sg body" and "\<not> startsWithDigit body"
  shows "parseInt (ws @ sg @ body) = NaN"
proof -
  from assms(2) have "\<not> hexPrefix body"
    by (cases body) (auto simp: startsWithDigit_def hexPrefix_def)
  with takeWhile_not_digit [OF assms(2)] show ?thesis
    by (simp add: parseInt_signedText [OF assms(1)])
qed

lemma signedText_exists: "\<exists>ws sg body. i = ws @ sg @ body \<and> signedText ws sg body"
proof -
  let ?ws = "takeWhile isStrWhiteSpaceChar i" and ?r = "dropWhile isStrWhiteSpaceChar i"
  have ws: "\<forall>c \<in> set ?ws. isStrWhiteSpaceChar c" by (auto dest: set_takeWhileD)
  have i: "i = ?ws @ ?r" by simp
  show ?thesis
  proof (cases ?r)
    case Nil
    with ws have "signedText ?ws [] []" by (simp add: signedText_def startsWithSpaceOrSign_def)
    with i Nil show ?thesis by (metis append_Nil)
  next
    case (Cons c r')
    then have nsp: "\<not> isStrWhiteSpaceChar c" by (metis hd_dropWhile list.distinct(1) list.sel(1))
    show ?thesis
    proof (cases "c = 0x2B \<or> c = 0x2D")
      case True
      with ws have "signedText ?ws [c] r'" by (auto simp: signedText_def)
      moreover from i Cons have "i = ?ws @ [c] @ r'" by simp
      ultimately show ?thesis by blast
    next
      case False
      with ws nsp have "signedText ?ws [] (c # r')"
        by (simp add: signedText_def startsWithSpaceOrSign_def)
      moreover from i Cons have "i = ?ws @ [] @ (c # r')" by simp
      ultimately show ?thesis by blast
    qed
  qed
qed

lemma dropWhile_not_starting:
  "\<not> (case dropWhile P xs of [] \<Rightarrow> False | c # cs \<Rightarrow> P c)"
  by (induction xs) auto

lemma startsWithDigit_radix:
  "startsWithDigit S \<longleftrightarrow> (case S of [] \<Rightarrow> False | c # cs \<Rightarrow> isRadixDigit 10 c)"
  by (cases S) (simp_all add: startsWithDigit_def isRadixDigit_10)

lemma parseInt_forms:
  "\<exists>ws sg.
     (\<exists>ds rest. i = ws @ sg @ ds @ rest \<and> signedText ws sg (ds @ rest) \<and> ds \<noteq> []
        \<and> (\<forall>c \<in> set ds. isRadixDigit 10 c) \<and> \<not> startsWithDigit rest \<and> \<not> hexPrefix (ds @ rest))
   \<or> (\<exists>x hs rest. i = ws @ sg @ [0x30, x] @ hs @ rest \<and> signedText ws sg ([0x30, x] @ hs @ rest)
        \<and> (x = 0x78 \<or> x = 0x58) \<and> hs \<noteq> [] \<and> (\<forall>c \<in> set hs. isRadixDigit 16 c)
        \<and> \<not> startsWithHexDigit rest)
   \<or> (\<exists>x rest. i = ws @ sg @ [0x30, x] @ rest \<and> signedText ws sg ([0x30, x] @ rest)
        \<and> (x = 0x78 \<or> x = 0x58) \<and> \<not> startsWithHexDigit rest)
   \<or> (\<exists>body. i = ws @ sg @ body \<and> signedText ws sg body \<and> \<not> startsWithDigit body)"
proof -
  from signedText_exists [of i] obtain ws sg body
    where i: "i = ws @ sg @ body" and st: "signedText ws sg body" by blast
  show ?thesis
  proof (cases "hexPrefix body")
    case True
    then obtain x r where b: "body = [0x30, x] @ r" and x: "x = 0x78 \<or> x = 0x58"
      by (cases body; cases "tl body") (auto simp: hexPrefix_def)
    let ?hs = "takeWhile (isRadixDigit 16) r" and ?rest = "dropWhile (isRadixDigit 16) r"
    have r: "r = ?hs @ ?rest" by simp
    have hs: "\<forall>c \<in> set ?hs. isRadixDigit 16 c" by (auto dest: set_takeWhileD)
    have rest: "\<not> startsWithHexDigit ?rest"
      unfolding startsWithHexDigit_def by (rule dropWhile_not_starting)
    show ?thesis
    proof (cases "?hs = []")
      case True
      with r have "r = ?rest" by simp
      with rest have "\<not> startsWithHexDigit r" by simp
      with i st b x show ?thesis by blast
    next
      case False
      from i b r have "i = ws @ sg @ [0x30, x] @ ?hs @ ?rest" by simp
      moreover from st b r have "signedText ws sg ([0x30, x] @ ?hs @ ?rest)" by simp
      ultimately show ?thesis using x False hs rest by blast
    qed
  next
    case False
    let ?ds = "takeWhile (isRadixDigit 10) body" and ?rest = "dropWhile (isRadixDigit 10) body"
    have r: "body = ?ds @ ?rest" by simp
    have ds: "\<forall>c \<in> set ?ds. isRadixDigit 10 c" by (auto dest: set_takeWhileD)
    have rest: "\<not> startsWithDigit ?rest"
      unfolding startsWithDigit_radix by (rule dropWhile_not_starting)
    show ?thesis
    proof (cases "?ds = []")
      case True
      with r have "body = ?rest" by simp
      with rest have "\<not> startsWithDigit body" by simp
      with i st show ?thesis by blast
    next
      case ne: False
      from i r have "i = ws @ sg @ ?ds @ ?rest" by simp
      moreover from st r have "signedText ws sg (?ds @ ?rest)" by simp
      moreover from False r have "\<not> hexPrefix (?ds @ ?rest)" by simp
      ultimately show ?thesis using ne ds rest by blast
    qed
  qed
qed

lemma NaN_not_key: "keysInOrder db \<Longrightarrow> Map_get (items db) NaN = None"
  by (auto simp: keysInOrder_def Map_get_None_iff Map_has_def)

section \<open>Counting the entries\<close>

lemma sorted_lessNum_distinct: "sorted_wrt lessNum ks \<Longrightarrow> distinct ks"
  by (induction ks) (auto simp: lessNum_irrefl)

lemma length_filter_key:
  "distinct (map fst es) \<Longrightarrow> Map_has es k \<Longrightarrow>
     Suc (length (filter (\<lambda>e. fst e \<noteq> k) es)) = length es"
proof (induction es)
  case Nil
  then show ?case by (simp add: Map_has_Nil)
next
  case (Cons e es)
  show ?case
  proof (cases "fst e = k")
    case True
    with Cons.prems have "\<not> Map_has es k" by (auto simp: Map_has_def)
    with True show ?thesis by (simp add: filter_absent)
  next
    case False
    with Cons show ?thesis by (simp add: Map_has_Cons)
  qed
qed

lemma count_exec:
  assumes "keysInOrder db"
  shows "length (items (snd (exec db c))) + removals [fst (exec db c)]
       = length (items db) + creates [c]"
proof (cases c)
  case (Create data now1 now2)
  with assms show ?thesis
    by (simp add: split_def Let_def create_eq removals_def creates_def)
next
  case FindAll
  then show ?thesis by (simp add: removals_def creates_def)
next
  case (FindById i)
  then show ?thesis by (simp add: removals_def creates_def)
next
  case (Update i data now)
  have "length (items (snd (update db i data now))) = length (items db)"
    using items_update_keys [of db i data now] by (metis length_map)
  with Update show ?thesis by (simp add: split_def Let_def removals_def creates_def)
next
  case (Delete i)
  from assms have dist: "distinct (map fst (items db))"
    by (simp add: keysInOrder_def sorted_lessNum_distinct)
  show ?thesis
  proof (cases "Map_has (items db) (parseInt i)")
    case True
    with dist Delete show ?thesis
      using length_filter_key [of "items db" "parseInt i"]
      by (simp add: delete_eq removals_def creates_def)
  next
    case False
    with Delete show ?thesis
      by (simp add: delete_eq removals_def creates_def filter_absent)
  qed
qed

lemma removals_append: "removals (rs @ rs') = removals rs + removals rs'"
  by (simp add: removals_def)

lemma creates_append: "creates (cs @ cs') = creates cs + creates cs'"
  by (simp add: creates_def)

lemma count_after:
  "length (items (after cs)) + removals (replies cs) = creates cs"
proof (induction cs rule: rev_induct)
  case Nil
  show ?case by (simp add: after_Nil replies_Nil init_def removals_def creates_def)
next
  case (snoc c cs)
  from count_exec [OF keysInOrder_after, of cs c] snoc show ?case
    by (simp add: after_snoc replies_snoc removals_append creates_append)
qed

lemma currentId_exec: "currentId (snd (exec db c)) = currentId db + int (creates [c])"
  by (cases c) (simp_all add: split_def Let_def create_def currentId_update delete_eq creates_def)

lemma currentId_after: "currentId (after cs) = 1 + int (creates cs)"
  by (induction cs rule: rev_induct)
    (simp_all add: after_Nil after_snoc init_def currentId_exec creates_append, simp add: creates_def)

section \<open>Evaluating the store on concrete calls\<close>

lemmas parse_eval = parseInt_def js_def signOf_def afterSign_def hexPrefix_def
  isStrWhiteSpaceChar_def isRadixDigit_def digitValue_def startsWithDigit_def

lemmas forms_eval = signedText_def startsWithSpaceOrSign_def startsWithHexDigit_def

lemmas store_eval = after_def replies_def init_def create_def findById_def findAll_def
  update_def delete_eq Map_get_def Map_values_def Map_has_Nil Map_has_Cons propOf_def getProp_def
  position_def creates_def removals_def Let_def split_def

lemma parseInt_1: "parseInt (js ''1'') = Finite 1"
  by (simp add: parse_eval)

lemma parseInt_3: "parseInt (js ''3'') = Finite 3"
  by (simp add: parse_eval)

lemma parseInt_7: "parseInt (js ''7'') = Finite 7"
  by (simp add: parse_eval)

lemma parseInt_1abc: "parseInt (js ''1abc'') = Finite 1"
  by (simp add: parse_eval)

lemma parseInt_abc: "parseInt (js ''abc'') = NaN"
  by (simp add: parse_eval)

section \<open>The claims\<close>

subsection \<open>C1: the ids that create returns\<close>

text \<open>
  The counter itself only grows: after any sequence of calls it is 1 plus the number of
  \<^verbatim>\<open>create\<close> calls (lemma \<open>currentId_after\<close>), and the keys of the map are distinct,
  increasing and below it (lemma \<open>keysInOrder_after\<close>), whatever deletes come in between.
\<close>

text \<open>
  C1 says that the ids returned by successive \<^verbatim>\<open>create\<close> calls are strictly increasing with
  no repeats. The id that \<^verbatim>\<open>create\<close> returns is the \<^verbatim>\<open>id\<close> property of the returned
  entity, and the spread of the payload comes after \<^verbatim>\<open>id\<close> in the object literal: two
  calls whose payloads both carry \<^verbatim>\<open>id: 7\<close> both return an entity with id 7.
\<close>

theorem create_returned_ids_repeat:
  "map (\<lambda>r. case r of Entity e \<Rightarrow> e ''id'' | _ \<Rightarrow> None)
     (replies [Create [''name'' \<mapsto> Opaque ''A'', ''id'' \<mapsto> Num 7] 0 0,
               Create [''name'' \<mapsto> Opaque ''B'', ''id'' \<mapsto> Num 7] 1 1])
   = [Some (Num 7), Some (Num 7)]"
  by (simp add: store_eval)

subsection \<open>C2: the payload and the assigned id\<close>

text \<open>
  What \<^verbatim>\<open>create\<close> puts into the \<^verbatim>\<open>id\<close> property in general: the counter's value when
  the payload has no \<^verbatim>\<open>id\<close>, and the payload's value when it has one. The two time stamps
  are written after the spread and cannot be overridden.
\<close>

lemma create_id:
  "fst (create db data now1 now2) ''id''
     = (case data ''id'' of None \<Rightarrow> Some (Num (currentId db)) | Some v \<Rightarrow> Some v)"
  by (simp add: create_def Let_def map_add_def split: option.splits)

lemma create_stamps:
  "fst (create db data now1 now2) ''createdAt'' = Some (IsoTime now1)
   \<and> fst (create db data now1 now2) ''updatedAt'' = Some (IsoTime now2)"
  by (simp add: create_def Let_def)

text \<open>
  C2 says that the entity returned and stored by \<^verbatim>\<open>create(payload)\<close> has the id allocated
  from the counter even when the payload contains an \<^verbatim>\<open>id\<close> field. On the fresh store the
  counter allocates 1; with the payload \<^verbatim>\<open>{name: "A", id: 7}\<close> the returned entity has id 7,
  the entity stored under key 1 has id 7, and nothing is stored under 7.
\<close>

theorem create_payload_overrides_id:
  "currentId (init :: string Database) = 1
   \<and> fst (create init [''name'' \<mapsto> Opaque ''A'', ''id'' \<mapsto> Num 7] 0 0) ''id'' = Some (Num 7)
   \<and> propOf (findById (snd (create init [''name'' \<mapsto> Opaque ''A'', ''id'' \<mapsto> Num 7] 0 0))
        (js ''1'')) ''id'' = Some (Num 7)
   \<and> findById (snd (create init [''name'' \<mapsto> Opaque ''A'', ''id'' \<mapsto> Num 7] 0 0))
        (js ''7'') = None"
  by (simp add: store_eval parseInt_1 parseInt_7)

subsection \<open>C3: the two time stamps of create\<close>

text \<open>
  C3 says that the entity returned by \<^verbatim>\<open>create\<close> has \<^verbatim>\<open>createdAt\<close> equal to
  \<^verbatim>\<open>updatedAt\<close>. The code evaluates \<^verbatim>\<open>new Date()\<close> once for each property; when the clock
  moves from 0 to 1 between the two evaluations, the stamps are 0 and 1.
\<close>

theorem create_reads_clock_twice:
  "fst (create init [''name'' \<mapsto> Opaque ''A''] 0 1) ''createdAt'' = Some (IsoTime 0)
   \<and> fst (create init [''name'' \<mapsto> Opaque ''A''] 0 1) ''updatedAt'' = Some (IsoTime 1)"
  by (simp add: store_eval)

subsection \<open>C4: what update leaves alone\<close>

text \<open>
  C4 says that \<^verbatim>\<open>update\<close> sets \<^verbatim>\<open>updatedAt\<close> to the current time and that this is greater
  than or equal to the previous \<^verbatim>\<open>updatedAt\<close>. The code stores whatever \<^verbatim>\<open>new Date()\<close>
  reads: after a \<^verbatim>\<open>create\<close> at time 5, an \<^verbatim>\<open>update\<close> for which the clock reads 3 (the
  clock was set back) replaces the stamp 5 by 3.
\<close>

theorem update_clock_set_back_counterexample:
  "propOf (findById (after [Create [''name'' \<mapsto> Opaque ''A''] 5 5]) (js ''1'')) ''updatedAt''
     = Some (IsoTime 5)
   \<and> propOf (fst (update (after [Create [''name'' \<mapsto> Opaque ''A''] 5 5]) (js ''1'')
                 [''name'' \<mapsto> Opaque ''B''] 3)) ''updatedAt''
     = Some (IsoTime 3)
   \<and> \<not> (5 :: int) \<le> 3"
  by (simp add: store_eval parseInt_1)

text \<open>
  C4 as amended: for every entity \<open>e\<close> stored after any sequence of calls and every payload,
  \<^verbatim>\<open>update\<close> returns and stores an entity with the \<^verbatim>\<open>id\<close> and \<^verbatim>\<open>createdAt\<close> of \<open>e\<close>,
  whatever the payload names, and with \<^verbatim>\<open>updatedAt\<close> set to the reading \<open>now\<close> of the
  clock; the previous \<^verbatim>\<open>updatedAt\<close> is an earlier reading \<open>t0\<close>, and \<open>t0 \<le> now\<close> whenever
  the clock has not been set back, that is, no earlier reading exceeds \<open>now\<close>.
\<close>

theorem update_keeps_id_and_createdAt:
  assumes "findById (after cs) i = Some e"
  shows "\<exists>e'. fst (update (after cs) i data now) = Some e'
           \<and> findById (snd (update (after cs) i data now)) i = Some e'
           \<and> e' ''id'' = e ''id''
           \<and> e' ''createdAt'' = e ''createdAt''
           \<and> e' ''updatedAt'' = Some (IsoTime now)
           \<and> (\<exists>t0. e ''updatedAt'' = Some (IsoTime t0)
                 \<and> ((\<forall>t \<in> set (readings cs). t \<le> now) \<longrightarrow> t0 \<le> now))"
proof -
  from assms have "e \<in> set (findAll (after cs))" by (rule findById_in_findAll)
  with stamped_after [of cs] have e: "e ''id'' \<noteq> None" "e ''createdAt'' \<noteq> None"
    and "\<exists>t \<in> set (readings cs). e ''updatedAt'' = Some (IsoTime t)"
    unfolding stamped_def by blast+
  then obtain t0 where t0: "t0 \<in> set (readings cs)" "e ''updatedAt'' = Some (IsoTime t0)"
    by blast
  let ?u = "(e ++ data)(''id'' \<mapsto> getProp e ''id'', ''createdAt'' \<mapsto> getProp e ''createdAt'',
                  ''updatedAt'' \<mapsto> IsoTime now)"
  from assms have get: "Map_get (items (after cs)) (parseInt i) = Some e"
    by (simp add: findById_def)
  then have r: "fst (update (after cs) i data now) = Some ?u"
    and d: "snd (update (after cs) i data now)
         = (after cs)\<lparr>items := Map_set (items (after cs)) (parseInt i) ?u\<rparr>"
    by (simp_all add: update_def Let_def)
  have f: "findById (snd (update (after cs) i data now)) i = Some ?u"
    by (simp add: d findById_def Map_get_set)
  from e have g: "?u ''id'' = e ''id''" "?u ''createdAt'' = e ''createdAt''"
    by (auto simp: getProp_def)
  have h: "?u ''updatedAt'' = Some (IsoTime now)" by simp
  from t0 have "(\<forall>t \<in> set (readings cs). t \<le> now) \<longrightarrow> t0 \<le> now" by blast
  with r f g h t0(2) show ?thesis by blast
qed

text \<open>
  C4, an instance: entity 1 is created at times 5 and 6 and updated at time 8 with a payload
  that names \<^verbatim>\<open>id\<close> and \<^verbatim>\<open>createdAt\<close>.
\<close>

theorem update_keeps_id_and_createdAt_witness:
  "findById (after [Create [''name'' \<mapsto> Opaque ''A''] 5 6]) (js ''1'')
     = Some [''id'' \<mapsto> Num 1, ''name'' \<mapsto> Opaque ''A'', ''createdAt'' \<mapsto> IsoTime 5,
             ''updatedAt'' \<mapsto> IsoTime 6]
   \<and> readings [Create [''name'' \<mapsto> Opaque ''A''] 5 6] = [5, 6] \<and> (5 :: int) \<le> 8 \<and> (6 :: int) \<le> 8
   \<and> propOf (fst (update (after [Create [''name'' \<mapsto> Opaque ''A''] 5 6]) (js ''1'')
        [''id'' \<mapsto> Num 9, ''createdAt'' \<mapsto> IsoTime 0] 8)) ''id'' = Some (Num 1)
   \<and> propOf (fst (update (after [Create [''name'' \<mapsto> Opaque ''A''] 5 6]) (js ''1'')
        [''id'' \<mapsto> Num 9, ''createdAt'' \<mapsto> IsoTime 0] 8)) ''createdAt'' = Some (IsoTime 5)
   \<and> propOf (fst (update (after [Create [''name'' \<mapsto> Opaque ''A''] 5 6]) (js ''1'')
        [''id'' \<mapsto> Num 9, ''createdAt'' \<mapsto> IsoTime 0] 8)) ''updatedAt'' = Some (IsoTime 8)"
proof -
  have h: "findById (after [Create [''name'' \<mapsto> Opaque ''A''] 5 6]) (js ''1'')
     = Some [''id'' \<mapsto> Num 1, ''name'' \<mapsto> Opaque ''A'', ''createdAt'' \<mapsto> IsoTime 5,
             ''updatedAt'' \<mapsto> IsoTime 6]"
    by (simp add: store_eval parseInt_1)
  from update_keeps_id_and_createdAt [OF h, of "[''id'' \<mapsto> Num 9, ''createdAt'' \<mapsto> IsoTime 0]" 8]
  show ?thesis using h by (auto simp: propOf_def)
qed

subsection \<open>C5: the merge of update\<close>

text \<open>
  C5: for every stored entity \<open>e\<close> and every payload, the entity that \<^verbatim>\<open>update\<close> returns
  and stores is the field-by-field merge of \<open>e\<close> with the payload: a field that the payload
  names has the payload's value, and every field that the payload does not name keeps its
  value in \<open>e\<close>. This is the merge of the sentence that goes on to set three fields apart,
  which \<^verbatim>\<open>update\<close> writes after the merge (C4): \<^verbatim>\<open>id\<close> and \<^verbatim>\<open>createdAt\<close> are those read
  from \<open>e\<close> and \<^verbatim>\<open>updatedAt\<close> is the reading of the clock. The theorem states the merge
  for every other field, and states these three.
\<close>

theorem update_merges_unprotected_fields:
  assumes "findById db i = Some e"
  shows "\<exists>e'. fst (update db i data now) = Some e'
           \<and> findById (snd (update db i data now)) i = Some e'
           \<and> (\<forall>k. k \<noteq> ''id'' \<and> k \<noteq> ''createdAt'' \<and> k \<noteq> ''updatedAt'' \<longrightarrow>
                  e' k = (case data k of None \<Rightarrow> e k | Some v \<Rightarrow> Some v))
           \<and> e' ''id'' = Some (getProp e ''id'')
           \<and> e' ''createdAt'' = Some (getProp e ''createdAt'')
           \<and> e' ''updatedAt'' = Some (IsoTime now)"
proof -
  let ?u = "(e ++ data)(''id'' \<mapsto> getProp e ''id'', ''createdAt'' \<mapsto> getProp e ''createdAt'',
                  ''updatedAt'' \<mapsto> IsoTime now)"
  from assms have get: "Map_get (items db) (parseInt i) = Some e"
    by (simp add: findById_def)
  then have r: "fst (update db i data now) = Some ?u"
    and d: "snd (update db i data now) = db\<lparr>items := Map_set (items db) (parseInt i) ?u\<rparr>"
    by (simp_all add: update_def Let_def)
  have f: "findById (snd (update db i data now)) i = Some ?u"
    by (simp add: d findById_def Map_get_set)
  have m: "\<forall>k. k \<noteq> ''id'' \<and> k \<noteq> ''createdAt'' \<and> k \<noteq> ''updatedAt'' \<longrightarrow>
                  ?u k = (case data k of None \<Rightarrow> e k | Some v \<Rightarrow> Some v)"
    by (simp add: map_add_def)
  have "?u ''id'' = Some (getProp e ''id'')" "?u ''createdAt'' = Some (getProp e ''createdAt'')"
    "?u ''updatedAt'' = Some (IsoTime now)" by simp_all
  with r f m show ?thesis by blast
qed

text \<open>
  C5, an instance: the entity \<^verbatim>\<open>{id: 1, name: "A", description: "d"}\<close> is updated with
  \<^verbatim>\<open>{name: "B"}\<close>; \<^verbatim>\<open>name\<close> is replaced and \<^verbatim>\<open>description\<close> is kept.
\<close>

theorem update_merges_unprotected_fields_witness:
  "findById (after [Create [''name'' \<mapsto> Opaque ''A'', ''description'' \<mapsto> Opaque ''d''] 5 6]) (js ''1'')
     = Some [''id'' \<mapsto> Num 1, ''name'' \<mapsto> Opaque ''A'', ''description'' \<mapsto> Opaque ''d'',
             ''createdAt'' \<mapsto> IsoTime 5, ''updatedAt'' \<mapsto> IsoTime 6]
   \<and> propOf (fst (update (after [Create [''name'' \<mapsto> Opaque ''A'', ''description'' \<mapsto> Opaque ''d''] 5 6])
        (js ''1'') [''name'' \<mapsto> Opaque ''B''] 8)) ''name'' = Some (Opaque ''B'')
   \<and> propOf (fst (update (after [Create [''name'' \<mapsto> Opaque ''A'', ''description'' \<mapsto> Opaque ''d''] 5 6])
        (js ''1'') [''name'' \<mapsto> Opaque ''B''] 8)) ''description'' = Some (Opaque ''d'')"
proof -
  have h: "findById (after [Create [''name'' \<mapsto> Opaque ''A'', ''description'' \<mapsto> Opaque ''d''] 5 6]) (js ''1'')
     = Some [''id'' \<mapsto> Num 1, ''name'' \<mapsto> Opaque ''A'', ''description'' \<mapsto> Opaque ''d'',
             ''createdAt'' \<mapsto> IsoTime 5, ''updatedAt'' \<mapsto> IsoTime 6]"
    by (simp add: store_eval parseInt_1)
  from update_merges_unprotected_fields [OF h, of "[''name'' \<mapsto> Opaque ''B'']" 8]
  obtain e' where e': "fst (update (after [Create [''name'' \<mapsto> Opaque ''A'', ''description'' \<mapsto> Opaque ''d''] 5 6])
        (js ''1'') [''name'' \<mapsto> Opaque ''B''] 8) = Some e'"
    and m: "\<forall>k. k \<noteq> ''id'' \<and> k \<noteq> ''createdAt'' \<and> k \<noteq> ''updatedAt'' \<longrightarrow>
       e' k = (case [''name'' \<mapsto> Opaque ''B''] k of
                 None \<Rightarrow> [''id'' \<mapsto> Num 1, ''name'' \<mapsto> Opaque ''A'', ''description'' \<mapsto> Opaque ''d'',
                   ''createdAt'' \<mapsto> IsoTime 5, ''updatedAt'' \<mapsto> IsoTime 6] k
               | Some v \<Rightarrow> Some v)"
    by blast
  from m have "e' ''name'' = Some (Opaque ''B'')" "e' ''description'' = Some (Opaque ''d'')"
    by simp_all
  with e' h show ?thesis by (simp add: propOf_def)
qed

subsection \<open>C6: the id that findById looks up\<close>

text \<open>
  C6 says that \<^verbatim>\<open>findById\<close> looks up by exact id match and that every non-numeric id
  input yields the not-found signal. \<^verbatim>\<open>parseInt\<close> stops at the first character that is
  not a digit and ignores the rest: on the store that holds entity 1, the input
  \<^verbatim>\<open>"1abc"\<close> finds that entity.
\<close>

theorem findById_trailing_text_counterexample:
  "propOf (findById (after [Create [''name'' \<mapsto> Opaque ''A''] 0 0]) (js ''1abc'')) ''name''
     = Some (Opaque ''A'')"
  by (simp add: store_eval parseInt_1abc)

text \<open>
  C6 as amended: \<^verbatim>\<open>findById\<close> never raises (it is a total function into an option) and
  returns what is stored under the number that \<^verbatim>\<open>parseInt\<close> reads from the input, for
  every input and every state of the store. Every input is white space, at most one sign
  and a body, and the number read depends on the body alone, in one of four ways:
  \<^item> the body begins with a run of decimal digits, not followed by a further digit and not
    beginning with \<^verbatim>\<open>0x\<close> or \<^verbatim>\<open>0X\<close>: the number is the signed value of the run in base
    10 and whatever follows the run is ignored;
  \<^item> the body begins with \<^verbatim>\<open>0x\<close> or \<^verbatim>\<open>0X\<close> and a run of hexadecimal digits: the number
    is the signed value of that run in base 16;
  \<^item> the body begins with \<^verbatim>\<open>0x\<close> or \<^verbatim>\<open>0X\<close> and no hexadecimal digit follows: \<open>NaN\<close>;
  \<^item> the body does not begin with a decimal digit: \<open>NaN\<close>.

  After any sequence of calls nothing is stored under \<open>NaN\<close>, so the last two kinds of
  input are not found, and an entity is found only when the number read is an id that the
  counter has allocated. In particular the decimal numeral of a positive \<open>n\<close>, with white
  space before it and any text not beginning with a digit after it, is looked up under \<open>n\<close>.
\<close>

theorem findById_reads_leading_integer:
  "findById db i = Map_get (items db) (parseInt i)
   \<and> (parseInt i = NaN \<longrightarrow> findById (after cs) i = None)
   \<and> (\<not> startsWithDigit (afterSign (dropWhile isStrWhiteSpaceChar i)) \<longrightarrow>
        findById (after cs) i = None)
   \<and> (0 < n \<and> (\<forall>c \<in> set ws. isStrWhiteSpaceChar c) \<and> \<not> startsWithDigit rest \<longrightarrow>
        findById db (ws @ decimal n @ rest) = Map_get (items db) (Finite (int n)))
   \<and> (\<forall>e. findById (after cs) i = Some e \<longrightarrow>
        (\<exists>k. parseInt i = Finite k \<and> 0 < k \<and> k < currentId (after cs)))
   \<and> (\<exists>ws sg.
         (\<exists>ds rest. i = ws @ sg @ ds @ rest \<and> signedText ws sg (ds @ rest) \<and> ds \<noteq> []
            \<and> (\<forall>c \<in> set ds. isRadixDigit 10 c) \<and> \<not> startsWithDigit rest
            \<and> \<not> hexPrefix (ds @ rest))
       \<or> (\<exists>x hs rest. i = ws @ sg @ [0x30, x] @ hs @ rest
            \<and> signedText ws sg ([0x30, x] @ hs @ rest)
            \<and> (x = 0x78 \<or> x = 0x58) \<and> hs \<noteq> [] \<and> (\<forall>c \<in> set hs. isRadixDigit 16 c)
            \<and> \<not> startsWithHexDigit rest)
       \<or> (\<exists>x rest. i = ws @ sg @ [0x30, x] @ rest \<and> signedText ws sg ([0x30, x] @ rest)
            \<and> (x = 0x78 \<or> x = 0x58) \<and> \<not> startsWithHexDigit rest)
       \<or> (\<exists>body. i = ws @ sg @ body \<and> signedText ws sg body \<and> \<not> startsWithDigit body))
   \<and> (signedText ws sg (ds @ rest) \<and> ds \<noteq> [] \<and> (\<forall>c \<in> set ds. isRadixDigit 10 c)
        \<and> \<not> startsWithDigit rest \<and> \<not> hexPrefix (ds @ rest) \<longrightarrow>
        findById db (ws @ sg @ ds @ rest)
          = Map_get (items db) (Finite (signOf sg * int (mathInt 10 0 ds))))
   \<and> (signedText ws sg ([0x30, x] @ hs @ rest) \<and> (x = 0x78 \<or> x = 0x58) \<and> hs \<noteq> []
        \<and> (\<forall>c \<in> set hs. isRadixDigit 16 c) \<and> \<not> startsWithHexDigit rest \<longrightarrow>
        findById db (ws @ sg @ [0x30, x] @ hs @ rest)
          = Map_get (items db) (Finite (signOf sg * int (mathInt 16 0 hs))))
   \<and> (signedText ws sg ([0x30, x] @ rest) \<and> (x = 0x78 \<or> x = 0x58)
        \<and> \<not> startsWithHexDigit rest \<longrightarrow>
        findById db (ws @ sg @ [0x30, x] @ rest) = Map_get (items db) NaN
        \<and> findById (after cs) (ws @ sg @ [0x30, x] @ rest) = None)
   \<and> (signedText ws sg body \<and> \<not> startsWithDigit body \<longrightarrow>
        findById db (ws @ sg @ body) = Map_get (items db) NaN
        \<and> findById (after cs) (ws @ sg @ body) = None)"
proof -
  have k: "keysInOrder (after cs)" by (rule keysInOrder_after)
  have 0: "findById db i = Map_get (items db) (parseInt i)"
    by (simp add: findById_def)
  from k have 1: "parseInt i = NaN \<longrightarrow> findById (after cs) i = None"
    by (simp add: findById_def NaN_not_key)
  have 2: "\<not> startsWithDigit (afterSign (dropWhile isStrWhiteSpaceChar i)) \<longrightarrow>
        findById (after cs) i = None"
    using k by (simp add: findById_def NaN_not_key parseInt_no_digit)
  have 3: "0 < n \<and> (\<forall>c \<in> set ws. isStrWhiteSpaceChar c) \<and> \<not> startsWithDigit rest \<longrightarrow>
        findById db (ws @ decimal n @ rest) = Map_get (items db) (Finite (int n))"
    by (simp add: findById_def parseInt_decimal)
  have 4: "\<exists>k. parseInt i = Finite k \<and> 0 < k \<and> k < currentId (after cs)"
    if f: "findById (after cs) i = Some e" for e
  proof -
    from f have "Map_has (items (after cs)) (parseInt i)"
      by (simp add: findById_def Map_get_Some_has)
    with k have "lessNum (Finite 0) (parseInt i)" "lessNum (parseInt i) (Finite (currentId (after cs)))"
      by (auto simp: keysInOrder_def Map_has_def)
    then show ?thesis by (cases "parseInt i") auto
  qed
  note 5 = parseInt_forms [of i]
  have 6: "signedText ws sg (ds @ rest) \<and> ds \<noteq> [] \<and> (\<forall>c \<in> set ds. isRadixDigit 10 c)
        \<and> \<not> startsWithDigit rest \<and> \<not> hexPrefix (ds @ rest) \<longrightarrow>
        findById db (ws @ sg @ ds @ rest)
          = Map_get (items db) (Finite (signOf sg * int (mathInt 10 0 ds)))"
    by (simp add: findById_def parseInt_decimal_run)
  have 7: "signedText ws sg ([0x30, x] @ hs @ rest) \<and> (x = 0x78 \<or> x = 0x58) \<and> hs \<noteq> []
        \<and> (\<forall>c \<in> set hs. isRadixDigit 16 c) \<and> \<not> startsWithHexDigit rest \<longrightarrow>
        findById db (ws @ sg @ [0x30, x] @ hs @ rest)
          = Map_get (items db) (Finite (signOf sg * int (mathInt 16 0 hs)))"
    using parseInt_hex_run [of ws sg x hs rest] by (simp add: findById_def)
  have 8: "signedText ws sg ([0x30, x] @ rest) \<and> (x = 0x78 \<or> x = 0x58)
        \<and> \<not> startsWithHexDigit rest \<longrightarrow>
        findById db (ws @ sg @ [0x30, x] @ rest) = Map_get (items db) NaN
        \<and> findById (after cs) (ws @ sg @ [0x30, x] @ rest) = None"
    using parseInt_hex_empty [of ws sg x rest] NaN_not_key [OF k] by (simp add: findById_def)
  have 9: "signedText ws sg body \<and> \<not> startsWithDigit body \<longrightarrow>
        findById db (ws @ sg @ body) = Map_get (items db) NaN
        \<and> findById (after cs) (ws @ sg @ body) = None"
    using parseInt_no_run [of ws sg body] NaN_not_key [OF k] by (simp add: findById_def)
  from 0 1 2 3 4 5 6 7 8 9 show ?thesis by blast
qed

text \<open>
  C6, instances on the store that holds entity 1: \<^verbatim>\<open>"abc"\<close> and \<^verbatim>\<open>"0x"\<close> are read as
  \<open>NaN\<close> and not found; \<^verbatim>\<open>" +01abc"\<close>, \<^verbatim>\<open>"0x1"\<close> and \<^verbatim>\<open>" 1abc"\<close> are read as 1 and
  find the entity.
\<close>

theorem findById_reads_leading_integer_witness:
  "parseInt (js ''abc'') = NaN
   \<and> findById (after [Create [''name'' \<mapsto> Opaque ''A''] 0 0]) (js ''abc'') = None
   \<and> findById (after [Create [''name'' \<mapsto> Opaque ''A''] 0 0]) (js ''0x'') = None
   \<and> propOf (findById (after [Create [''name'' \<mapsto> Opaque ''A''] 0 0]) (js '' +01abc''))
        ''name'' = Some (Opaque ''A'')
   \<and> propOf (findById (after [Create [''name'' \<mapsto> Opaque ''A''] 0 0]) (js ''0x1''))
        ''name'' = Some (Opaque ''A'')
   \<and> propOf (findById (after [Create [''name'' \<mapsto> Opaque ''A''] 0 0]) (js '' '' @ decimal 1 @ js ''abc''))
        ''name'' = Some (Opaque ''A'')"
proof -
  let ?cs = "[Create [''name'' \<mapsto> Opaque ''A''] 0 0]"
  have e: "propOf (Map_get (items (after ?cs)) (Finite 1)) ''name'' = Some (Opaque ''A'')"
    by (simp add: store_eval)
  have a: "parseInt (js ''abc'') = NaN" by (rule parseInt_abc)
  from findById_reads_leading_integer [where i = "js ''abc''" and cs = ?cs]
  have "parseInt (js ''abc'') = NaN \<longrightarrow> findById (after ?cs) (js ''abc'') = None"
    by blast
  with a have 1: "findById (after ?cs) (js ''abc'') = None" by simp
  from findById_reads_leading_integer [where cs = ?cs and ws = "[]" and sg = "[]"
      and x = "0x78" and rest = "[]"]
  have "signedText [] [] ([0x30, 0x78] @ []) \<and> (0x78 = (0x78 :: nat) \<or> 0x78 = (0x58 :: nat))
        \<and> \<not> startsWithHexDigit [] \<longrightarrow>
        findById (after ?cs) ([] @ [] @ [0x30, 0x78] @ []) = None"
    by blast
  then have 2: "findById (after ?cs) (js ''0x'') = None"
    by (simp add: forms_eval isStrWhiteSpaceChar_def js_def)
  from findById_reads_leading_integer [where db = "after ?cs" and ws = "js '' ''"
      and sg = "[0x2B]" and ds = "js ''01''" and rest = "js ''abc''"]
  have "signedText (js '' '') [0x2B] (js ''01'' @ js ''abc'') \<and> js ''01'' \<noteq> []
        \<and> (\<forall>c \<in> set (js ''01''). isRadixDigit 10 c)
        \<and> \<not> startsWithDigit (js ''abc'') \<and> \<not> hexPrefix (js ''01'' @ js ''abc'') \<longrightarrow>
        findById (after ?cs) (js '' '' @ [0x2B] @ js ''01'' @ js ''abc'')
          = Map_get (items (after ?cs)) (Finite (signOf [0x2B] * int (mathInt 10 0 (js ''01''))))"
    by blast
  then have "findById (after ?cs) (js '' +01abc'') = Map_get (items (after ?cs)) (Finite 1)"
    by (simp add: forms_eval parse_eval)
  with e have 3: "propOf (findById (after ?cs) (js '' +01abc'')) ''name'' = Some (Opaque ''A'')"
    by simp
  from findById_reads_leading_integer [where db = "after ?cs" and ws = "[]" and sg = "[]"
      and x = "0x78" and hs = "js ''1''" and rest = "[]"]
  have "signedText [] [] ([0x30, 0x78] @ js ''1'' @ []) \<and> (0x78 = (0x78 :: nat) \<or> 0x78 = (0x58 :: nat))
        \<and> js ''1'' \<noteq> [] \<and> (\<forall>c \<in> set (js ''1''). isRadixDigit 16 c)
        \<and> \<not> startsWithHexDigit [] \<longrightarrow>
        findById (after ?cs) ([] @ [] @ [0x30, 0x78] @ js ''1'' @ [])
          = Map_get (items (after ?cs)) (Finite (signOf [] * int (mathInt 16 0 (js ''1''))))"
    by blast
  then have "findById (after ?cs) (js ''0x1'') = Map_get (items (after ?cs)) (Finite 1)"
    by (simp add: forms_eval parse_eval)
  with e have 4: "propOf (findById (after ?cs) (js ''0x1'')) ''name'' = Some (Opaque ''A'')"
    by simp
  from findById_reads_leading_integer [where db = "after ?cs" and n = 1 and ws = "js '' ''"
      and rest = "js ''abc''"]
  have "0 < (1 :: nat) \<and> (\<forall>c \<in> set (js '' ''). isStrWhiteSpaceChar c)
        \<and> \<not> startsWithDigit (js ''abc'') \<longrightarrow>
        findById (after ?cs) (js '' '' @ decimal 1 @ js ''abc'')
          = Map_get (items (after ?cs)) (Finite (int 1))"
    by blast
  then have "findById (after ?cs) (js '' '' @ decimal 1 @ js ''abc'')
      = Map_get (items (after ?cs)) (Finite 1)"
    by (simp add: parse_eval)
  with e have 5: "propOf (findById (after ?cs) (js '' '' @ decimal 1 @ js ''abc'')) ''name''
      = Some (Opaque ''A'')"
    by simp
  from a 1 2 3 4 5 show ?thesis by simp
qed

subsection \<open>C7: what delete reports and leaves alone\<close>

text \<open>
  C7 says that \<^verbatim>\<open>delete\<close> returns the "nothing removed" result and changes nothing when no
  entity exists for the id. \<^verbatim>\<open>delete\<close> coerces its input with \<^verbatim>\<open>parseInt\<close>, as
  \<^verbatim>\<open>findById\<close> does: on the store that holds entity 1, \<^verbatim>\<open>delete("1abc")\<close>, an id that no
  entity has, returns \<^verbatim>\<open>true\<close> and removes entity 1.
\<close>

theorem delete_trailing_text_counterexample:
  "propOf (findById (after [Create [''name'' \<mapsto> Opaque ''A''] 0 0]) (js ''1'')) ''name''
     = Some (Opaque ''A'')
   \<and> fst (delete (after [Create [''name'' \<mapsto> Opaque ''A''] 0 0]) (js ''1abc''))
   \<and> findById (snd (delete (after [Create [''name'' \<mapsto> Opaque ''A''] 0 0]) (js ''1abc'')))
        (js ''1'') = None"
  by (simp add: store_eval parseInt_1 parseInt_1abc)

text \<open>
  C7 as amended: for every state of the store and every id input, \<^verbatim>\<open>delete\<close> removes the
  entity stored under the number that \<^verbatim>\<open>parseInt\<close> reads from the input, if there is one,
  and returns \<^verbatim>\<open>true\<close> exactly then; afterwards nothing is stored under that number, and
  the entities under all other keys and the counter are unchanged. When nothing is stored
  under that number it returns \<^verbatim>\<open>false\<close> (it has no error result) and the whole store is
  unchanged; after any sequence of calls this is so for every input that is read as \<open>NaN\<close>,
  and \<^verbatim>\<open>true\<close> is returned only when the number read is an id that the counter has
  allocated. The number read is the one described for C6: every input is white space, at
  most one sign and a body of one of the four kinds, and text after a run of digits is
  ignored, so that a malformed id that begins with a stored id removes that entity.
\<close>

theorem delete_reports_removal:
  "(fst (delete db i) \<longleftrightarrow> findById db i \<noteq> None)
   \<and> findById (snd (delete db i)) i = None
   \<and> (\<forall>k. k \<noteq> parseInt i \<longrightarrow> Map_get (items (snd (delete db i))) k = Map_get (items db) k)
   \<and> currentId (snd (delete db i)) = currentId db
   \<and> (findById db i = None \<longrightarrow> \<not> fst (delete db i) \<and> snd (delete db i) = db)
   \<and> (fst (delete db i) \<longleftrightarrow> Map_has (items db) (parseInt i))
   \<and> Map_get (items (snd (delete db i))) (parseInt i) = None
   \<and> (\<not> fst (delete db i) \<longrightarrow> snd (delete db i) = db)
   \<and> (parseInt i = NaN \<longrightarrow> \<not> fst (delete (after cs) i) \<and> snd (delete (after cs) i) = after cs)
   \<and> (fst (delete (after cs) i) \<longrightarrow>
        (\<exists>k. parseInt i = Finite k \<and> 0 < k \<and> k < currentId (after cs)))
   \<and> (\<exists>ws sg.
         (\<exists>ds rest. i = ws @ sg @ ds @ rest \<and> signedText ws sg (ds @ rest) \<and> ds \<noteq> []
            \<and> (\<forall>c \<in> set ds. isRadixDigit 10 c) \<and> \<not> startsWithDigit rest
            \<and> \<not> hexPrefix (ds @ rest))
       \<or> (\<exists>x hs rest. i = ws @ sg @ [0x30, x] @ hs @ rest
            \<and> signedText ws sg ([0x30, x] @ hs @ rest)
            \<and> (x = 0x78 \<or> x = 0x58) \<and> hs \<noteq> [] \<and> (\<forall>c \<in> set hs. isRadixDigit 16 c)
            \<and> \<not> startsWithHexDigit rest)
       \<or> (\<exists>x rest. i = ws @ sg @ [0x30, x] @ rest \<and> signedText ws sg ([0x30, x] @ rest)
            \<and> (x = 0x78 \<or> x = 0x58) \<and> \<not> startsWithHexDigit rest)
       \<or> (\<exists>body. i = ws @ sg @ body \<and> signedText ws sg body \<and> \<not> startsWithDigit body))
   \<and> (signedText ws sg (ds @ rest) \<and> ds \<noteq> [] \<and> (\<forall>c \<in> set ds. isRadixDigit 10 c)
        \<and> \<not> startsWithDigit rest \<and> \<not> hexPrefix (ds @ rest) \<longrightarrow>
        (fst (delete db (ws @ sg @ ds @ rest))
           \<longleftrightarrow> Map_has (items db) (Finite (signOf sg * int (mathInt 10 0 ds))))
        \<and> Map_get (items (snd (delete db (ws @ sg @ ds @ rest))))
             (Finite (signOf sg * int (mathInt 10 0 ds))) = None)
   \<and> (signedText ws sg ([0x30, x] @ hs @ rest) \<and> (x = 0x78 \<or> x = 0x58) \<and> hs \<noteq> []
        \<and> (\<forall>c \<in> set hs. isRadixDigit 16 c) \<and> \<not> startsWithHexDigit rest \<longrightarrow>
        (fst (delete db (ws @ sg @ [0x30, x] @ hs @ rest))
           \<longleftrightarrow> Map_has (items db) (Finite (signOf sg * int (mathInt 16 0 hs))))
        \<and> Map_get (items (snd (delete db (ws @ sg @ [0x30, x] @ hs @ rest))))
             (Finite (signOf sg * int (mathInt 16 0 hs))) = None)
   \<and> (signedText ws sg ([0x30, x] @ rest) \<and> (x = 0x78 \<or> x = 0x58)
        \<and> \<not> startsWithHexDigit rest \<longrightarrow>
        \<not> fst (delete (after cs) (ws @ sg @ [0x30, x] @ rest))
        \<and> snd (delete (after cs) (ws @ sg @ [0x30, x] @ rest)) = after cs)
   \<and> (signedText ws sg body \<and> \<not> startsWithDigit body \<longrightarrow>
        \<not> fst (delete (after cs) (ws @ sg @ body))
        \<and> snd (delete (after cs) (ws @ sg @ body)) = after cs)"
proof -
  have k: "keysInOrder (after cs)" by (rule keysInOrder_after)
  then have nan: "\<not> Map_has (items (after cs)) NaN"
    using NaN_not_key [of "after cs"] by (simp add: Map_get_None_iff)
  have a1: "fst (delete db i) \<longleftrightarrow> findById db i \<noteq> None"
    by (simp add: findById_def delete_eq Map_get_None_iff)
  have a2: "findById (snd (delete db i)) i = None"
    by (simp add: findById_def delete_eq Map_get_filter)
  have a3: "\<forall>k. k \<noteq> parseInt i \<longrightarrow> Map_get (items (snd (delete db i))) k = Map_get (items db) k"
    by (simp add: delete_eq Map_get_filter)
  have a4: "currentId (snd (delete db i)) = currentId db"
    by (simp add: delete_eq)
  have a5: "findById db i = None \<longrightarrow> \<not> fst (delete db i) \<and> snd (delete db i) = db"
    by (simp add: findById_def delete_eq Map_get_None_iff filter_absent)
  have b1: "fst (delete db i) \<longleftrightarrow> Map_has (items db) (parseInt i)"
    by (simp add: delete_eq)
  have b2: "Map_get (items (snd (delete db i))) (parseInt i) = None"
    by (simp add: delete_eq Map_get_filter)
  have b3: "\<not> fst (delete db i) \<longrightarrow> snd (delete db i) = db"
    by (simp add: delete_eq filter_absent)
  have unchanged: "\<not> fst (delete (after cs) j) \<and> snd (delete (after cs) j) = after cs"
    if "parseInt j = NaN" for j
    using that nan by (simp add: delete_eq filter_absent)
  then have c1: "parseInt i = NaN \<longrightarrow>
      \<not> fst (delete (after cs) i) \<and> snd (delete (after cs) i) = after cs"
    by blast
  have c2: "fst (delete (after cs) i) \<longrightarrow>
        (\<exists>k. parseInt i = Finite k \<and> 0 < k \<and> k < currentId (after cs))"
  proof
    assume "fst (delete (after cs) i)"
    then have "Map_has (items (after cs)) (parseInt i)" by (simp add: delete_eq)
    with k have "lessNum (Finite 0) (parseInt i)" "lessNum (parseInt i) (Finite (currentId (after cs)))"
      by (auto simp: keysInOrder_def Map_has_def)
    then show "\<exists>k. parseInt i = Finite k \<and> 0 < k \<and> k < currentId (after cs)"
      by (cases "parseInt i") auto
  qed
  note c3 = parseInt_forms [of i]
  have d1: "signedText ws sg (ds @ rest) \<and> ds \<noteq> [] \<and> (\<forall>c \<in> set ds. isRadixDigit 10 c)
        \<and> \<not> startsWithDigit rest \<and> \<not> hexPrefix (ds @ rest) \<longrightarrow>
        (fst (delete db (ws @ sg @ ds @ rest))
           \<longleftrightarrow> Map_has (items db) (Finite (signOf sg * int (mathInt 10 0 ds))))
        \<and> Map_get (items (snd (delete db (ws @ sg @ ds @ rest))))
             (Finite (signOf sg * int (mathInt 10 0 ds))) = None"
  proof
    assume "signedText ws sg (ds @ rest) \<and> ds \<noteq> [] \<and> (\<forall>c \<in> set ds. isRadixDigit 10 c)
        \<and> \<not> startsWithDigit rest \<and> \<not> hexPrefix (ds @ rest)"
    then have "parseInt (ws @ sg @ ds @ rest) = Finite (signOf sg * int (mathInt 10 0 ds))"
      by (simp add: parseInt_decimal_run)
    then show "(fst (delete db (ws @ sg @ ds @ rest))
           \<longleftrightarrow> Map_has (items db) (Finite (signOf sg * int (mathInt 10 0 ds))))
        \<and> Map_get (items (snd (delete db (ws @ sg @ ds @ rest))))
             (Finite (signOf sg * int (mathInt 10 0 ds))) = None"
      by (simp add: delete_eq Map_get_filter)
  qed
  have d2: "signedText ws sg ([0x30, x] @ hs @ rest) \<and> (x = 0x78 \<or> x = 0x58) \<and> hs \<noteq> []
        \<and> (\<forall>c \<in> set hs. isRadixDigit 16 c) \<and> \<not> startsWithHexDigit rest \<longrightarrow>
        (fst (delete db (ws @ sg @ [0x30, x] @ hs @ rest))
           \<longleftrightarrow> Map_has (items db) (Finite (signOf sg * int (mathInt 16 0 hs))))
        \<and> Map_get (items (snd (delete db (ws @ sg @ [0x30, x] @ hs @ rest))))
             (Finite (signOf sg * int (mathInt 16 0 hs))) = None"
  proof
    assume "signedText ws sg ([0x30, x] @ hs @ rest) \<and> (x = 0x78 \<or> x = 0x58) \<and> hs \<noteq> []
        \<and> (\<forall>c \<in> set hs. isRadixDigit 16 c) \<and> \<not> startsWithHexDigit rest"
    then have "parseInt (ws @ sg @ [0x30, x] @ hs @ rest)
        = Finite (signOf sg * int (mathInt 16 0 hs))"
      using parseInt_hex_run [of ws sg x hs rest] by blast
    then show "(fst (delete db (ws @ sg @ [0x30, x] @ hs @ rest))
           \<longleftrightarrow> Map_has (items db) (Finite (signOf sg * int (mathInt 16 0 hs))))
        \<and> Map_get (items (snd (delete db (ws @ sg @ [0x30, x] @ hs @ rest))))
             (Finite (signOf sg * int (mathInt 16 0 hs))) = None"
      by (simp add: delete_eq Map_get_filter)
  qed
  have d3: "signedText ws sg ([0x30, x] @ rest) \<and> (x = 0x78 \<or> x = 0x58)
        \<and> \<not> startsWithHexDigit rest \<longrightarrow>
        \<not> fst (delete (after cs) (ws @ sg @ [0x30, x] @ rest))
        \<and> snd (delete (after cs) (ws @ sg @ [0x30, x] @ rest)) = after cs"
    using unchanged [of "ws @ sg @ [0x30, x] @ rest"] parseInt_hex_empty [of ws sg x rest]
    by blast
  have d4: "signedText ws sg body \<and> \<not> startsWithDigit body \<longrightarrow>
        \<not> fst (delete (after cs) (ws @ sg @ body))
        \<and> snd (delete (after cs) (ws @ sg @ body)) = after cs"
    using unchanged [of "ws @ sg @ body"] parseInt_no_run [of ws sg body] by blast
  show ?thesis
    by (intro conjI) (fact a1 a2 a3 a4 a5 b1 b2 b3 c1 c2 c3 d1 d2 d3 d4)+
qed

text \<open>
  C7, instances on the store that holds entities 1 and 2: deleting \<^verbatim>\<open>"1"\<close> returns
  \<^verbatim>\<open>true\<close> and leaves entity 2, and so does deleting \<^verbatim>\<open>"1abc"\<close>; deleting \<^verbatim>\<open>"3"\<close> or
  \<^verbatim>\<open>"abc"\<close> returns \<^verbatim>\<open>false\<close> and changes nothing.
\<close>

theorem delete_reports_removal_witness:
  "fst (delete (after [Create [''name'' \<mapsto> Opaque ''A''] 0 0, Create [''name'' \<mapsto> Opaque ''B''] 1 1])
        (js ''1''))
   \<and> Finite 2 \<noteq> parseInt (js ''1'')
   \<and> propOf (Map_get (items (snd (delete
        (after [Create [''name'' \<mapsto> Opaque ''A''] 0 0, Create [''name'' \<mapsto> Opaque ''B''] 1 1])
        (js ''1'')))) (Finite 2)) ''name'' = Some (Opaque ''B'')
   \<and> findById (after [Create [''name'' \<mapsto> Opaque ''A''] 0 0, Create [''name'' \<mapsto> Opaque ''B''] 1 1])
        (js ''3'') = None
   \<and> \<not> fst (delete (after [Create [''name'' \<mapsto> Opaque ''A''] 0 0, Create [''name'' \<mapsto> Opaque ''B''] 1 1])
        (js ''3''))
   \<and> snd (delete (after [Create [''name'' \<mapsto> Opaque ''A''] 0 0, Create [''name'' \<mapsto> Opaque ''B''] 1 1])
        (js ''3''))
      = after [Create [''name'' \<mapsto> Opaque ''A''] 0 0, Create [''name'' \<mapsto> Opaque ''B''] 1 1]
   \<and> fst (delete (after [Create [''name'' \<mapsto> Opaque ''A''] 0 0, Create [''name'' \<mapsto> Opaque ''B''] 1 1])
        (js ''1abc''))
   \<and> Map_get (items (snd (delete
        (after [Create [''name'' \<mapsto> Opaque ''A''] 0 0, Create [''name'' \<mapsto> Opaque ''B''] 1 1])
        (js ''1abc'')))) (Finite 1) = None
   \<and> parseInt (js ''abc'') = NaN
   \<and> \<not> fst (delete (after [Create [''name'' \<mapsto> Opaque ''A''] 0 0, Create [''name'' \<mapsto> Opaque ''B''] 1 1])
        (js ''abc''))
   \<and> snd (delete (after [Create [''name'' \<mapsto> Opaque ''A''] 0 0, Create [''name'' \<mapsto> Opaque ''B''] 1 1])
        (js ''abc''))
      = after [Create [''name'' \<mapsto> Opaque ''A''] 0 0, Create [''name'' \<mapsto> Opaque ''B''] 1 1]"
proof -
  let ?cs = "[Create [''name'' \<mapsto> Opaque ''A''] 0 0, Create [''name'' \<mapsto> Opaque ''B''] 1 1]"
  let ?db = "after ?cs"
  have a: "findById ?db (js ''1'') \<noteq> None" "Finite 2 \<noteq> parseInt (js ''1'')"
    by (simp_all add: store_eval parseInt_1)
  have b: "findById ?db (js ''3'') = None"
    by (simp add: store_eval parseInt_3)
  have c: "propOf (Map_get (items ?db) (Finite 2)) ''name'' = Some (Opaque ''B'')"
    by (simp add: store_eval)
  have h: "Map_has (items ?db) (Finite 1)"
    by (simp add: store_eval)
  have n: "parseInt (js ''abc'') = NaN" by (rule parseInt_abc)
  note 1 = delete_reports_removal [where db = ?db and i = "js ''1''", THEN conjunct1]
  note 2 = delete_reports_removal [where db = ?db and i = "js ''1''", THEN conjunct2,
      THEN conjunct2, THEN conjunct1]
  note 3 = delete_reports_removal [where db = ?db and i = "js ''3''", THEN conjunct2,
      THEN conjunct2, THEN conjunct2, THEN conjunct2, THEN conjunct1]
  from delete_reports_removal [where db = ?db and ws = "[]" and sg = "[]" and ds = "js ''1''"
      and rest = "js ''abc''", THEN conjunct2, THEN conjunct2, THEN conjunct2,
      THEN conjunct2, THEN conjunct2, THEN conjunct2, THEN conjunct2, THEN conjunct2,
      THEN conjunct2, THEN conjunct2, THEN conjunct2, THEN conjunct1]
  have 4: "(fst (delete ?db (js ''1abc'')) \<longleftrightarrow> Map_has (items ?db) (Finite 1))
      \<and> Map_get (items (snd (delete ?db (js ''1abc'')))) (Finite 1) = None"
    by (simp add: forms_eval parse_eval)
  note 5 = delete_reports_removal [where cs = ?cs and i = "js ''abc''", THEN conjunct2,
      THEN conjunct2, THEN conjunct2, THEN conjunct2, THEN conjunct2, THEN conjunct2,
      THEN conjunct2, THEN conjunct2, THEN conjunct1]
  from a b c h n 1 2 3 4 5 show ?thesis by simp
qed

subsection \<open>C8: delete, then findById\<close>

text \<open>
  C8: for every state of the store and every id input, \<^verbatim>\<open>findById\<close> with the same input
  after \<^verbatim>\<open>delete\<close> returns the not-found signal.
\<close>

theorem delete_then_findById: "findById (snd (delete db i)) i = None"
  by (simp add: findById_def delete_eq Map_get_filter)

text \<open>C8, an instance: entity 1 is found before \<^verbatim>\<open>delete("1")\<close> and not after.\<close>

theorem delete_then_findById_witness:
  "findById (after [Create [''name'' \<mapsto> Opaque ''A''] 0 0]) (js ''1'') \<noteq> None
   \<and> findById (snd (delete (after [Create [''name'' \<mapsto> Opaque ''A''] 0 0]) (js ''1''))) (js ''1'')
       = None"
proof -
  have "findById (after [Create [''name'' \<mapsto> Opaque ''A''] 0 0]) (js ''1'') \<noteq> None"
    by (simp add: store_eval parseInt_1)
  with delete_then_findById [of "after [Create [''name'' \<mapsto> Opaque ''A''] 0 0]" "js ''1''"]
  show ?thesis by simp
qed

subsection \<open>C9: how many entities findAll returns\<close>

text \<open>
  C9: after any sequence of calls on the empty store, with \<open>N\<close> the number of \<^verbatim>\<open>create\<close>
  calls (each of them stores an entity) and \<open>M\<close> the number of \<^verbatim>\<open>delete\<close> calls that returned
  \<^verbatim>\<open>true\<close>, \<open>M \<le> N\<close> holds and \<^verbatim>\<open>findAll\<close> returns exactly \<open>N - M\<close> entities.
\<close>

theorem findAll_count:
  "removals (replies cs) \<le> creates cs
     \<and> length (findAll (after cs)) = creates cs - removals (replies cs)"
  using count_after [of cs] by (simp add: findAll_def Map_values_def)

text \<open>
  C9, an instance: two creates, one successful delete of entity 1, then a second delete
  of it and a delete of \<^verbatim>\<open>"abc"\<close>, which both remove nothing; one entity is left.
\<close>

theorem findAll_count_witness:
  "creates [Create [''name'' \<mapsto> Opaque ''A''] 0 0, Create [''name'' \<mapsto> Opaque ''B''] 1 1,
            Delete (js ''1''), Delete (js ''1''), Delete (js ''abc'')] = 2
   \<and> removals (replies [Create [''name'' \<mapsto> Opaque ''A''] 0 0, Create [''name'' \<mapsto> Opaque ''B''] 1 1,
            Delete (js ''1''), Delete (js ''1''), Delete (js ''abc'')]) = 1
   \<and> length (findAll (after [Create [''name'' \<mapsto> Opaque ''A''] 0 0, Create [''name'' \<mapsto> Opaque ''B''] 1 1,
            Delete (js ''1''), Delete (js ''1''), Delete (js ''abc'')])) = 1"
proof -
  let ?cs = "[Create [''name'' \<mapsto> Opaque ''A''] 0 0, Create [''name'' \<mapsto> Opaque ''B''] 1 1,
            Delete (js ''1''), Delete (js ''1''), Delete (js ''abc'')]"
  have a: "creates ?cs = 2" by (simp add: creates_def)
  have b: "removals (replies ?cs) = 1"
    by (simp add: store_eval parseInt_1 parseInt_abc)
  from findAll_count [of ?cs] show ?thesis using a b by simp
qed

subsection \<open>C10: the order of findAll\<close>

text \<open>
  C10: \<^verbatim>\<open>findAll\<close> returns the entities in insertion order. After any sequence of calls
  on the empty store, the entries of the map stand in increasing order of their keys, the
  ids in the order the counter allocated them, and \<^verbatim>\<open>findAll\<close> lists their entities in
  that order; \<^verbatim>\<open>create\<close> puts the new entity at the end; \<^verbatim>\<open>update\<close> of a stored entity
  replaces it at the position where it stands and moves nothing; \<^verbatim>\<open>delete\<close> takes
  entries out and leaves the others in their order.
\<close>

theorem findAll_insertion_order:
  "sorted_wrt lessNum (map fst (items (after cs)))
   \<and> findAll (after cs) = map snd (items (after cs))
   \<and> findAll (snd (create (after cs) data now1 now2))
        = findAll (after cs) @ [fst (create (after cs) data now1 now2)]
   \<and> (\<forall>e. findById (after cs) i = Some e \<longrightarrow>
         position (items (after cs)) (parseInt i) < length (findAll (after cs))
       \<and> findAll (after cs) ! position (items (after cs)) (parseInt i) = e
       \<and> (\<exists>e'. fst (update (after cs) i data' now) = Some e'
             \<and> findAll (snd (update (after cs) i data' now))
                 = (findAll (after cs))[position (items (after cs)) (parseInt i) := e']))
   \<and> findAll (snd (delete (after cs) j))
        = map snd (filter (\<lambda>e. fst e \<noteq> parseInt j) (items (after cs)))"
proof -
  have k: "keysInOrder (after cs)" by (rule keysInOrder_after)
  then have 1: "sorted_wrt lessNum (map fst (items (after cs)))"
    by (simp add: keysInOrder_def)
  have 2: "findAll (after cs) = map snd (items (after cs))"
    by (simp add: findAll_def Map_values_def)
  have 3: "findAll (snd (create (after cs) data now1 now2))
        = findAll (after cs) @ [fst (create (after cs) data now1 now2)]"
    by (simp add: create_eq [OF k] findAll_def Map_values_def)
  have 4: "position (items (after cs)) (parseInt i) < length (findAll (after cs))
       \<and> findAll (after cs) ! position (items (after cs)) (parseInt i) = e
       \<and> (\<exists>e'. fst (update (after cs) i data' now) = Some e'
             \<and> findAll (snd (update (after cs) i data' now))
                 = (findAll (after cs))[position (items (after cs)) (parseInt i) := e'])"
    if f: "findById (after cs) i = Some e" for e
  proof -
    from f have g: "Map_get (items (after cs)) (parseInt i) = Some e"
      by (simp add: findById_def)
    then have h: "Map_has (items (after cs)) (parseInt i)" by (rule Map_get_Some_has)
    from g show ?thesis
      by (simp add: update_def Let_def findAll_def Map_values_def position_less [OF h]
          Map_get_position [OF g] Map_set_position [OF h] map_update)
  qed
  have 5: "findAll (snd (delete (after cs) j))
        = map snd (filter (\<lambda>e. fst e \<noteq> parseInt j) (items (after cs)))"
    by (simp add: delete_eq findAll_def Map_values_def)
  from 1 2 3 4 5 show ?thesis by blast
qed

text \<open>
  C10, an instance: entities 1 (\<^verbatim>\<open>"A"\<close>) and 2 (\<^verbatim>\<open>"B"\<close>) are created in this order; entity 1
  stands at position 0, and after \<^verbatim>\<open>update("1", {name: "A2"})\<close> the names that \<^verbatim>\<open>findAll\<close>
  lists are \<^verbatim>\<open>"A2"\<close>, \<^verbatim>\<open>"B"\<close>.
\<close>

theorem findAll_insertion_order_witness:
  "findById (after [Create [''name'' \<mapsto> Opaque ''A''] 0 0, Create [''name'' \<mapsto> Opaque ''B''] 1 1])
      (js ''1'')
     = Some [''id'' \<mapsto> Num 1, ''name'' \<mapsto> Opaque ''A'', ''createdAt'' \<mapsto> IsoTime 0,
             ''updatedAt'' \<mapsto> IsoTime 0]
   \<and> position (items (after [Create [''name'' \<mapsto> Opaque ''A''] 0 0,
        Create [''name'' \<mapsto> Opaque ''B''] 1 1])) (parseInt (js ''1'')) = 0
   \<and> map (\<lambda>e. e ''name'') (findAll (after [Create [''name'' \<mapsto> Opaque ''A''] 0 0,
        Create [''name'' \<mapsto> Opaque ''B''] 1 1]))
     = [Some (Opaque ''A''), Some (Opaque ''B'')]
   \<and> map (\<lambda>e. e ''name'') (findAll (snd (update (after [Create [''name'' \<mapsto> Opaque ''A''] 0 0,
        Create [''name'' \<mapsto> Opaque ''B''] 1 1]) (js ''1'') [''name'' \<mapsto> Opaque ''A2''] 9)))
     = [Some (Opaque ''A2''), Some (Opaque ''B'')]"
proof -
  let ?cs = "[Create [''name'' \<mapsto> Opaque ''A''] 0 0, Create [''name'' \<mapsto> Opaque ''B''] 1 1]"
  have h: "findById (after ?cs) (js ''1'')
     = Some [''id'' \<mapsto> Num 1, ''name'' \<mapsto> Opaque ''A'', ''createdAt'' \<mapsto> IsoTime 0,
             ''updatedAt'' \<mapsto> IsoTime 0]"
    by (simp add: store_eval parseInt_1)
  have p: "position (items (after ?cs)) (parseInt (js ''1'')) = 0"
    by (simp add: store_eval parseInt_1)
  have a: "map (\<lambda>e. e ''name'') (findAll (after ?cs)) = [Some (Opaque ''A''), Some (Opaque ''B'')]"
    by (simp add: store_eval)
  have u: "propOf (fst (update (after ?cs) (js ''1'') [''name'' \<mapsto> Opaque ''A2''] 9)) ''name''
      = Some (Opaque ''A2'')"
    by (simp add: store_eval parseInt_1)
  from findAll_insertion_order [where cs = ?cs and i = "js ''1''"
      and data' = "[''name'' \<mapsto> Opaque ''A2'']" and now = 9] h
  obtain e' where e': "fst (update (after ?cs) (js ''1'') [''name'' \<mapsto> Opaque ''A2''] 9) = Some e'"
    and l: "findAll (snd (update (after ?cs) (js ''1'') [''name'' \<mapsto> Opaque ''A2''] 9))
        = (findAll (after ?cs))[position (items (after ?cs)) (parseInt (js ''1'')) := e']"
    by blast
  from u e' have "e' ''name'' = Some (Opaque ''A2'')" by (simp add: propOf_def)
  with l p a have "map (\<lambda>e. e ''name'')
      (findAll (snd (update (after ?cs) (js ''1'') [''name'' \<mapsto> Opaque ''A2''] 9)))
     = [Some (Opaque ''A2''), Some (Opaque ''B'')]"
    by (simp add: map_update)
  with h p a show ?thesis by simp
qed

end
